theory Spec2Isabelle
  imports Main "HOL-Library.Word"
begin

section \<open>Data model of display.c\<close>

text \<open>
  The structs of \<^verbatim>\<open>private.h\<close>, as \<^verbatim>\<open>display.c\<close> uses them. A pointer to a plane is the
  position of the plane in \<^verbatim>\<open>display->planes\<close>; a pointer to a layer is the pair
  (position of its output in \<^verbatim>\<open>display->outputs\<close>, position of the layer in
  \<^verbatim>\<open>output->layers\<close>); \<^verbatim>\<open>NULL\<close> is \<open>None\<close>. \<^verbatim>\<open>layer->output\<close> is the output whose
  list holds the layer, and \<^verbatim>\<open>output->display\<close> the display whose list holds the output.
  Field names carry a prefix where two structs use the same name
  (\<^verbatim>\<open>name\<close>, \<^verbatim>\<open>id\<close>, \<^verbatim>\<open>props\<close>, \<^verbatim>\<open>layer\<close>, \<^verbatim>\<open>plane\<close>); \<^verbatim>\<open>props_len\<close> is the length of the
  list of properties. An allocation pass walks the lists of planes, outputs and layers
  and never links or unlinks a member, so a list is the sequence of its members here;
  the list nodes themselves are modelled further down, for creation and destruction.
\<close>

type_synonym layer_ref = "nat \<times> nat"

record hwc_plane_property =
  pp_name :: string
  pp_id :: "32 word"

record hwc_layer_property =
  lp_name :: string
  lp_value :: "64 word"

record hwc_plane =
  plane_id :: "32 word"
  possible_crtcs :: "32 word"
  plane_props :: "hwc_plane_property list"
  plane_layer :: "layer_ref option"

record hwc_layer =
  layer_props :: "hwc_layer_property list"
  layer_plane :: "nat option"

record hwc_output =
  crtc_id :: "32 word"
  layers :: "hwc_layer list"

record hwc_display =
  drm_fd :: int
  planes :: "hwc_plane list"
  outputs :: "hwc_output list"

text \<open>
  What the program prints on \<^verbatim>\<open>stderr\<close>, one constructor for each message, with the
  values that the format string prints. Names are C strings, compared by \<^verbatim>\<open>strcmp\<close>: equal
  when they are the same string.
\<close>

datatype msg =
    Setting string "64 word"
  | Perror string
  | Failed_to_find_property string
  | Disabling_plane "32 word"
  | Trying_to_apply layer_ref "32 word"
  | Success
  | Failure
  | Failed_to_find_plane layer_ref

text \<open>
  An entry of the atomic request: object id, property id, value. The request is the list
  of its entries, oldest first; its cursor is the number of entries.
\<close>

type_synonym item = "32 word \<times> 32 word \<times> 64 word"
type_synonym atomic_req = "item list"

text \<open>The mutable surroundings of a pass: the caller's request and the text on \<^verbatim>\<open>stderr\<close>.\<close>

record world =
  req :: atomic_req
  stderr :: "msg list"

text \<open>
  The kernel driver and libdrm, as far as \<^verbatim>\<open>display.c\<close> observes them: the return value
  of \<^verbatim>\<open>drmModeAtomicAddProperty\<close> for a request and a new entry, and the return value of a
  test-only \<^verbatim>\<open>drmModeAtomicCommit\<close> of a request (0, or a negated \<^verbatim>\<open>errno\<close> code). A test
  changes nothing in the kernel, so within a pass the answer is a function of the
  request. Return values are C \<^verbatim>\<open>int\<close>s; the negation \<^verbatim>\<open>-ret\<close> of \<^verbatim>\<open>layer_choose_plane\<close> is
  taken on the integers, which is what C computes for every value but \<^verbatim>\<open>INT_MIN\<close>, and
  that is no negated \<^verbatim>\<open>errno\<close> code. \<^verbatim>\<open>EINVAL\<close> and \<^verbatim>\<open>ERANGE\<close> have their Linux values.
\<close>

record drm =
  add_property_ret :: "atomic_req \<Rightarrow> item \<Rightarrow> int"
  test_commit_ret :: "atomic_req \<Rightarrow> int"

definition EINVAL :: int where
  "EINVAL = 22"

definition ERANGE :: int where
  "ERANGE = 34"

text \<open>
  Modelled from the spec: the transactional request object of libdrm, which is not part
  of this repository. Appending a property write either fails (negative return, request
  unchanged) or adds one entry at the end; the cursor is the append position; setting
  the cursor drops the entries behind it; a test-only evaluation changes nothing.
\<close>

definition drmModeAtomicAddProperty ::
  "drm \<Rightarrow> atomic_req \<Rightarrow> 32 word \<Rightarrow> 32 word \<Rightarrow> 64 word \<Rightarrow> int \<times> atomic_req" where
  "drmModeAtomicAddProperty k r obj prop v =
     (let ret = add_property_ret k r (obj, prop, v)
      in if ret < 0 then (ret, r) else (ret, r @ [(obj, prop, v)]))"

definition drmModeAtomicGetCursor :: "atomic_req \<Rightarrow> nat" where
  "drmModeAtomicGetCursor r = length r"

definition drmModeAtomicSetCursor :: "atomic_req \<Rightarrow> nat \<Rightarrow> atomic_req" where
  "drmModeAtomicSetCursor r c = take c r"

definition drmModeAtomicCommit :: "drm \<Rightarrow> atomic_req \<Rightarrow> int" where
  "drmModeAtomicCommit k r = test_commit_ret k r"

text \<open>\<^verbatim>\<open>assert\<close> aborts the program; that outcome is the error value.\<close>

datatype error = Assertion_failed

definition fprintf :: "world \<Rightarrow> msg \<Rightarrow> world" where
  "fprintf w m = w\<lparr>stderr := stderr w @ [m]\<rparr>"

section \<open>The property application engine\<close>

primrec get_property :: "hwc_plane_property list \<Rightarrow> string \<Rightarrow> hwc_plane_property option" where
  "get_property [] n = None"
| "get_property (p # ps) n = (if pp_name p = n then Some p else get_property ps n)"

definition plane_get_property :: "hwc_plane \<Rightarrow> string \<Rightarrow> hwc_plane_property option" where
  "plane_get_property plane n = get_property (plane_props plane) n"

definition plane_set_prop ::
  "drm \<Rightarrow> hwc_plane \<Rightarrow> world \<Rightarrow> hwc_plane_property \<Rightarrow> 64 word \<Rightarrow> bool \<times> world" where
  "plane_set_prop k plane w prop v =
     (let w1 = fprintf w (Setting (pp_name prop) v);
          (ret, r) = drmModeAtomicAddProperty k (req w1) (plane_id plane) (pp_id prop) v
      in if ret < 0 then (False, fprintf w1 (Perror ''drmModeAtomicAddProperty''))
         else (True, w1\<lparr>req := r\<rparr>))"

text \<open>The loop of \<^verbatim>\<open>plane_apply\<close> over the layer's properties.\<close>

fun apply_layer_props ::
  "drm \<Rightarrow> hwc_plane \<Rightarrow> hwc_layer_property list \<Rightarrow> world \<Rightarrow> bool \<times> world" where
  "apply_layer_props k plane [] w = (True, w)"
| "apply_layer_props k plane (lp # lps) w =
     (case plane_get_property plane (lp_name lp) of
        None \<Rightarrow> (False, fprintf w (Failed_to_find_property (lp_name lp)))
      | Some pp \<Rightarrow>
          (case plane_set_prop k plane w pp (lp_value lp) of
             (False, w') \<Rightarrow> (False, w')
           | (True, w') \<Rightarrow> apply_layer_props k plane lps w'))"

definition get_layer :: "hwc_display \<Rightarrow> layer_ref \<Rightarrow> hwc_layer" where
  "get_layer d r = layers (outputs d ! fst r) ! snd r"

definition plane_apply ::
  "drm \<Rightarrow> hwc_display \<Rightarrow> hwc_plane \<Rightarrow> layer_ref option \<Rightarrow> world \<Rightarrow> error + (bool \<times> world)" where
  "plane_apply k d plane layer w =
     (case layer of
        None \<Rightarrow>
          (case plane_get_property plane ''FB_ID'' of
             None \<Rightarrow> Inl Assertion_failed
           | Some pp \<Rightarrow> Inr (plane_set_prop k plane w pp 0))
      | Some r \<Rightarrow>
          (case plane_get_property plane ''CRTC_ID'' of
             None \<Rightarrow> Inl Assertion_failed
           | Some pp \<Rightarrow>
               (case plane_set_prop k plane w pp (ucast (crtc_id (outputs d ! fst r))) of
                  (False, w') \<Rightarrow> Inr (False, w')
                | (True, w') \<Rightarrow> Inr (apply_layer_props k plane (layer_props (get_layer d r)) w'))))"

section \<open>The allocation algorithm\<close>

text \<open>The two assignments \<^verbatim>\<open>layer->plane = plane; plane->layer = layer\<close>.\<close>

definition set_layer_plane :: "hwc_display \<Rightarrow> layer_ref \<Rightarrow> nat option \<Rightarrow> hwc_display" where
  "set_layer_plane d r v =
     d\<lparr>outputs := (outputs d)[fst r := (outputs d ! fst r)
          \<lparr>layers := (layers (outputs d ! fst r))[snd r := (get_layer d r)\<lparr>layer_plane := v\<rparr>]\<rparr>]\<rparr>"

definition set_plane_layer :: "hwc_display \<Rightarrow> nat \<Rightarrow> layer_ref option \<Rightarrow> hwc_display" where
  "set_plane_layer d i v = d\<lparr>planes := (planes d)[i := (planes d ! i)\<lparr>plane_layer := v\<rparr>]\<rparr>"

text \<open>
  The loop of \<^verbatim>\<open>layer_choose_plane\<close> over \<^verbatim>\<open>display->planes\<close>: \<open>i\<close> is the position of the
  first plane of the remaining list, \<open>c\<close> the cursor read before the loop.
\<close>

fun choose_loop ::
  "drm \<Rightarrow> hwc_display \<Rightarrow> layer_ref \<Rightarrow> nat \<Rightarrow> nat \<Rightarrow> hwc_plane list \<Rightarrow> world
     \<Rightarrow> error + (bool \<times> hwc_display \<times> world)" where
  "choose_loop k d r c i [] w = Inr (True, d, fprintf w (Failed_to_find_plane r))"
| "choose_loop k d r c i (plane # ps) w =
     (if plane_layer plane \<noteq> None then choose_loop k d r c (Suc i) ps w
      else
        (case plane_apply k d plane (Some r) (fprintf w (Trying_to_apply r (plane_id plane))) of
           Inl e \<Rightarrow> Inl e
         | Inr (False, w1) \<Rightarrow> Inr (False, d, w1)
         | Inr (True, w1) \<Rightarrow>
             (let ret = drmModeAtomicCommit k (req w1)
              in if ret = 0 then
                   Inr (True, set_plane_layer (set_layer_plane d r (Some i)) i (Some r),
                        fprintf w1 Success)
                 else if - ret \<noteq> EINVAL \<and> - ret \<noteq> ERANGE then
                   Inr (False, d, fprintf w1 (Perror ''drmModeAtomicCommit''))
                 else
                   choose_loop k d r c (Suc i) ps
                     ((fprintf w1 Failure)\<lparr>req := drmModeAtomicSetCursor (req w1) c\<rparr>))))"

definition layer_choose_plane ::
  "drm \<Rightarrow> hwc_display \<Rightarrow> layer_ref \<Rightarrow> world \<Rightarrow> error + (bool \<times> hwc_display \<times> world)" where
  "layer_choose_plane k d r w =
     choose_loop k d r (drmModeAtomicGetCursor (req w)) 0 (planes d) w"

text \<open>First loop of \<^verbatim>\<open>hwc_display_apply\<close>: unset the mapping of the plane at position \<open>i\<close>.\<close>

definition unset_mapping :: "hwc_display \<Rightarrow> nat \<Rightarrow> hwc_display" where
  "unset_mapping d i =
     (case plane_layer (planes d ! i) of
        None \<Rightarrow> d
      | Some r \<Rightarrow> set_plane_layer (set_layer_plane d r None) i None)"

definition unset_mappings :: "hwc_display \<Rightarrow> hwc_display" where
  "unset_mappings d = foldl unset_mapping d [0..<length (planes d)]"

text \<open>Second loop: disable the planes that have no layer.\<close>

fun disable_planes ::
  "drm \<Rightarrow> hwc_display \<Rightarrow> hwc_plane list \<Rightarrow> world \<Rightarrow> error + (bool \<times> world)" where
  "disable_planes k d [] w = Inr (True, w)"
| "disable_planes k d (plane # ps) w =
     (if plane_layer plane = None then
        (case plane_apply k d plane None (fprintf w (Disabling_plane (plane_id plane))) of
           Inl e \<Rightarrow> Inl e
         | Inr (False, w1) \<Rightarrow> Inr (False, w1)
         | Inr (True, w1) \<Rightarrow> disable_planes k d ps w1)
      else disable_planes k d ps w)"

text \<open>Third loop, inner part: the layers of the output at position \<open>oi\<close>.\<close>

fun choose_layers ::
  "drm \<Rightarrow> hwc_display \<Rightarrow> nat \<Rightarrow> nat list \<Rightarrow> world \<Rightarrow> error + (bool \<times> hwc_display \<times> world)" where
  "choose_layers k d oi [] w = Inr (True, d, w)"
| "choose_layers k d oi (li # lis) w =
     (case layer_choose_plane k d (oi, li) w of
        Inl e \<Rightarrow> Inl e
      | Inr (False, d1, w1) \<Rightarrow> Inr (False, d1, w1)
      | Inr (True, d1, w1) \<Rightarrow> choose_layers k d1 oi lis w1)"

text \<open>Third loop, outer part: the outputs of the display.\<close>

fun choose_outputs ::
  "drm \<Rightarrow> hwc_display \<Rightarrow> nat list \<Rightarrow> world \<Rightarrow> error + (bool \<times> hwc_display \<times> world)" where
  "choose_outputs k d [] w = Inr (True, d, w)"
| "choose_outputs k d (oi # ois) w =
     (case choose_layers k d oi [0..<length (layers (outputs d ! oi))] w of
        Inl e \<Rightarrow> Inl e
      | Inr (False, d1, w1) \<Rightarrow> Inr (False, d1, w1)
      | Inr (True, d1, w1) \<Rightarrow> choose_outputs k d1 ois w1)"

definition hwc_display_apply ::
  "drm \<Rightarrow> hwc_display \<Rightarrow> world \<Rightarrow> error + (bool \<times> hwc_display \<times> world)" where
  "hwc_display_apply k d w =
     (let d1 = unset_mappings d
      in case disable_planes k d1 (planes d1) w of
           Inl e \<Rightarrow> Inl e
         | Inr (False, w1) \<Rightarrow> Inr (False, d1, w1)
         | Inr (True, w1) \<Rightarrow> choose_outputs k d1 [0..<length (outputs d1)] w1)"

section \<open>Creating and destroying a display: the memory\<close>

text \<open>
  \<^verbatim>\<open>hwc_display_create\<close> and \<^verbatim>\<open>hwc_display_destroy\<close> allocate and free objects and link and
  unlink list nodes, so they are modelled over the memory that holds the objects.
  Addresses are natural numbers and 0 is \<^verbatim>\<open>NULL\<close>. A pointer to a \<^verbatim>\<open>struct hwc_list\<close> is
  \<^verbatim>\<open>NULL\<close>, the address of the \<^verbatim>\<open>planes\<close> or of the \<^verbatim>\<open>outputs\<close> member of the display at
  an address, or the address of the \<^verbatim>\<open>link\<close> member of the plane at an address.
\<close>

type_synonym addr = nat

datatype list_ptr = Null | Planes_of addr | Outputs_of addr | Link_of addr

record hwc_list =
  prev :: list_ptr
  "next" :: list_ptr

record display_obj =
  obj_drm_fd :: int
  obj_planes :: hwc_list
  obj_outputs :: hwc_list

record plane_obj =
  obj_id :: "32 word"
  obj_possible_crtcs :: "32 word"
  obj_props :: addr
  obj_props_len :: nat
  obj_link :: hwc_list
  obj_layer :: addr

text \<open>
  The memory: the live objects of each kind with their addresses, the open file
  descriptors, and the number of allocations made so far. What \<^verbatim>\<open>calloc\<close> returns is
  zeroed: numbers are 0 and pointers are \<^verbatim>\<open>NULL\<close>.
\<close>

record memory =
  display_objs :: "(addr \<times> display_obj) list"
  plane_objs :: "(addr \<times> plane_obj) list"
  prop_arrays :: "(addr \<times> hwc_plane_property list) list"
  open_fds :: "int list"
  allocations :: nat

datatype fault = Null_dereference | Invalid_pointer | Invalid_free

text \<open>
  The operating system and the driver at creation time: whether the n-th allocation
  fails, what \<^verbatim>\<open>dup\<close> returns, and what the driver's queries return (\<open>None\<close> for \<^verbatim>\<open>NULL\<close>).
\<close>

record os =
  calloc_fails :: "nat \<Rightarrow> bool"
  dup_ret :: "int \<Rightarrow> int"
  plane_resources :: "32 word list option"
  drm_plane :: "32 word \<Rightarrow> (32 word \<times> 32 word) option"
  object_properties :: "32 word \<Rightarrow> 32 word list option"
  drm_property :: "32 word \<Rightarrow> hwc_plane_property option"

definition zero_list :: hwc_list where
  "zero_list = \<lparr>prev = Null, next = Null\<rparr>"

definition zero_display :: display_obj where
  "zero_display = \<lparr>obj_drm_fd = 0, obj_planes = zero_list, obj_outputs = zero_list\<rparr>"

definition zero_plane :: plane_obj where
  "zero_plane =
     \<lparr>obj_id = 0, obj_possible_crtcs = 0, obj_props = 0, obj_props_len = 0, obj_link = zero_list,
      obj_layer = 0\<rparr>"

text \<open>
  The calls of the C library that \<^verbatim>\<open>display.c\<close> makes, with their standard meaning:
  \<^verbatim>\<open>calloc\<close> returns \<^verbatim>\<open>NULL\<close> or a fresh address; \<^verbatim>\<open>free(NULL)\<close> does nothing and \<^verbatim>\<open>free\<close> of
  an address that is not live is undefined; \<^verbatim>\<open>close\<close> of a descriptor that is not open
  fails and changes nothing; \<^verbatim>\<open>dup\<close> returns a new open descriptor or a negative value.
  The objects that libdrm hands out and takes back (\<^verbatim>\<open>drmModeFree...\<close>) are not tracked.
\<close>

definition calloc :: "os \<Rightarrow> memory \<Rightarrow> addr \<times> memory" where
  "calloc sys m =
     (let m' = m\<lparr>allocations := Suc (allocations m)\<rparr>
      in if calloc_fails sys (allocations m) then (0, m') else (Suc (allocations m), m'))"

definition close :: "memory \<Rightarrow> int \<Rightarrow> memory" where
  "close m fd = m\<lparr>open_fds := removeAll fd (open_fds m)\<rparr>"

definition dup :: "os \<Rightarrow> memory \<Rightarrow> int \<Rightarrow> int \<times> memory" where
  "dup sys m fd =
     (let r = dup_ret sys fd
      in if r < 0 then (r, m) else (r, m\<lparr>open_fds := r # open_fds m\<rparr>))"

definition free_display :: "memory \<Rightarrow> addr \<Rightarrow> fault + memory" where
  "free_display m a =
     (if a = 0 then Inr m
      else case map_of (display_objs m) a of
             None \<Rightarrow> Inl Invalid_free
           | Some d \<Rightarrow> Inr (m\<lparr>display_objs := filter (\<lambda>x. fst x \<noteq> a) (display_objs m)\<rparr>))"

definition free_plane :: "memory \<Rightarrow> addr \<Rightarrow> fault + memory" where
  "free_plane m a =
     (if a = 0 then Inr m
      else case map_of (plane_objs m) a of
             None \<Rightarrow> Inl Invalid_free
           | Some p \<Rightarrow> Inr (m\<lparr>plane_objs := filter (\<lambda>x. fst x \<noteq> a) (plane_objs m)\<rparr>))"

definition free_props :: "memory \<Rightarrow> addr \<Rightarrow> fault + memory" where
  "free_props m a =
     (if a = 0 then Inr m
      else case map_of (prop_arrays m) a of
             None \<Rightarrow> Inl Invalid_free
           | Some ps \<Rightarrow> Inr (m\<lparr>prop_arrays := filter (\<lambda>x. fst x \<noteq> a) (prop_arrays m)\<rparr>))"

text \<open>Reading and writing the objects through pointers.\<close>

definition read_display :: "memory \<Rightarrow> addr \<Rightarrow> fault + display_obj" where
  "read_display m a =
     (if a = 0 then Inl Null_dereference
      else case map_of (display_objs m) a of None \<Rightarrow> Inl Invalid_pointer | Some d \<Rightarrow> Inr d)"

definition read_plane :: "memory \<Rightarrow> addr \<Rightarrow> fault + plane_obj" where
  "read_plane m a =
     (if a = 0 then Inl Null_dereference
      else case map_of (plane_objs m) a of None \<Rightarrow> Inl Invalid_pointer | Some p \<Rightarrow> Inr p)"

definition write_display :: "memory \<Rightarrow> addr \<Rightarrow> display_obj \<Rightarrow> memory" where
  "write_display m a d =
     m\<lparr>display_objs := map (\<lambda>x. if fst x = a then (a, d) else x) (display_objs m)\<rparr>"

definition write_plane :: "memory \<Rightarrow> addr \<Rightarrow> plane_obj \<Rightarrow> memory" where
  "write_plane m a p =
     m\<lparr>plane_objs := map (\<lambda>x. if fst x = a then (a, p) else x) (plane_objs m)\<rparr>"

definition read_list :: "memory \<Rightarrow> list_ptr \<Rightarrow> fault + hwc_list" where
  "read_list m lp =
     (case lp of
        Null \<Rightarrow> Inl Null_dereference
      | Planes_of a \<Rightarrow> (case read_display m a of Inl f \<Rightarrow> Inl f | Inr d \<Rightarrow> Inr (obj_planes d))
      | Outputs_of a \<Rightarrow> (case read_display m a of Inl f \<Rightarrow> Inl f | Inr d \<Rightarrow> Inr (obj_outputs d))
      | Link_of a \<Rightarrow> (case read_plane m a of Inl f \<Rightarrow> Inl f | Inr p \<Rightarrow> Inr (obj_link p)))"

definition write_list :: "memory \<Rightarrow> list_ptr \<Rightarrow> hwc_list \<Rightarrow> fault + memory" where
  "write_list m lp l =
     (case lp of
        Null \<Rightarrow> Inl Null_dereference
      | Planes_of a \<Rightarrow>
          (case read_display m a of
             Inl f \<Rightarrow> Inl f | Inr d \<Rightarrow> Inr (write_display m a (d\<lparr>obj_planes := l\<rparr>)))
      | Outputs_of a \<Rightarrow>
          (case read_display m a of
             Inl f \<Rightarrow> Inl f | Inr d \<Rightarrow> Inr (write_display m a (d\<lparr>obj_outputs := l\<rparr>)))
      | Link_of a \<Rightarrow>
          (case read_plane m a of
             Inl f \<Rightarrow> Inl f | Inr p \<Rightarrow> Inr (write_plane m a (p\<lparr>obj_link := l\<rparr>))))"

definition and_then :: "'e + 'a \<Rightarrow> ('a \<Rightarrow> 'e + 'b) \<Rightarrow> 'e + 'b" where
  "and_then x f = (case x of Inl e \<Rightarrow> Inl e | Inr a \<Rightarrow> f a)"

text \<open>
  Modelled from the spec: the intrusive doubly-linked list utility (\<^verbatim>\<open>hwc_list_init\<close>,
  \<^verbatim>\<open>hwc_list_insert\<close>, \<^verbatim>\<open>hwc_list_remove\<close> and the iteration macro), which is not under
  \<^verbatim>\<open>src/\<close>. It is the circular list with a head node that \<^verbatim>\<open>display.c\<close> relies on when it
  appends with \<^verbatim>\<open>hwc_list_insert(display->planes.prev, ...)\<close>: an initialised head points
  to itself, and the iteration starts at \<^verbatim>\<open>head->next\<close> and stops when it is back at the
  head; the variant that allows removal reads the successor of a member before the body
  runs.
\<close>

definition hwc_list_init :: "memory \<Rightarrow> list_ptr \<Rightarrow> fault + memory" where
  "hwc_list_init m lp = write_list m lp \<lparr>prev = lp, next = lp\<rparr>"

definition hwc_list_insert :: "memory \<Rightarrow> list_ptr \<Rightarrow> list_ptr \<Rightarrow> fault + memory" where
  "hwc_list_insert m lp elm =
     and_then (read_list m lp) (\<lambda>l.
     and_then (write_list m elm \<lparr>prev = lp, next = next l\<rparr>) (\<lambda>m1.
     and_then (read_list m1 lp) (\<lambda>l1.
     and_then (write_list m1 lp (l1\<lparr>next := elm\<rparr>)) (\<lambda>m2.
     and_then (read_list m2 elm) (\<lambda>e.
     and_then (read_list m2 (next e)) (\<lambda>n.
     write_list m2 (next e) (n\<lparr>prev := elm\<rparr>)))))))"

definition hwc_list_remove :: "memory \<Rightarrow> list_ptr \<Rightarrow> fault + memory" where
  "hwc_list_remove m elm =
     and_then (read_list m elm) (\<lambda>e.
     and_then (read_list m (prev e)) (\<lambda>p.
     and_then (write_list m (prev e) (p\<lparr>next := next e\<rparr>)) (\<lambda>m1.
     and_then (read_list m1 (next e)) (\<lambda>n.
     and_then (write_list m1 (next e) (n\<lparr>prev := prev e\<rparr>)) (\<lambda>m2.
     write_list m2 elm \<lparr>prev = Null, next = Null\<rparr>)))))"

section \<open>Creating and destroying a display: the functions of display.c\<close>

definition plane_destroy :: "memory \<Rightarrow> addr \<Rightarrow> fault + memory" where
  "plane_destroy m plane =
     and_then (hwc_list_remove m (Link_of plane)) (\<lambda>m1.
     and_then (read_plane m1 plane) (\<lambda>p.
     and_then (free_props m1 (obj_props p)) (\<lambda>m2.
     free_plane m2 plane)))"

text \<open>
  The loop \<^verbatim>\<open>hwc_list_for_each_safe(plane, tmp, &display->planes, link)\<close> of
  \<^verbatim>\<open>hwc_display_destroy\<close>: \<open>pos\<close> and \<open>tmp\<close> are the addresses of the \<^verbatim>\<open>link\<close> members of
  \<^verbatim>\<open>plane\<close> and \<^verbatim>\<open>tmp\<close>. The body destroys a plane, so \<open>pos\<close> has to be the link of one.
\<close>

function destroy_planes :: "memory \<Rightarrow> list_ptr \<Rightarrow> list_ptr \<Rightarrow> list_ptr \<Rightarrow> fault + memory" where
  "destroy_planes m head pos tmp =
     (if pos = head then Inr m
      else
        (case pos of
           Null \<Rightarrow> Inl Null_dereference
         | Planes_of a \<Rightarrow> Inl Invalid_pointer
         | Outputs_of a \<Rightarrow> Inl Invalid_pointer
         | Link_of plane \<Rightarrow>
             (case plane_destroy m plane of
                Inl f \<Rightarrow> Inl f
              | Inr m1 \<Rightarrow>
                  (case read_list m1 tmp of
                     Inl f \<Rightarrow> Inl f
                   | Inr t \<Rightarrow> destroy_planes m1 head tmp (next t)))))"
  by pat_completeness auto
termination
proof (relation "measure (\<lambda>(m, head, pos, tmp). length (plane_objs m))")
  show "wf (measure (\<lambda>(m, head, pos, tmp). length (plane_objs m)))" by simp
next
  fix m :: memory and head pos tmp :: list_ptr and plane m1 t
  assume d: "plane_destroy m plane = Inr m1"
  have w: "length (plane_objs m') = length (plane_objs m0)"
    if "write_list m0 lp l = Inr m'" for m0 m' lp l
    using that
    by (auto simp: write_list_def write_display_def write_plane_def
        split: list_ptr.splits sum.splits)
  from d obtain ma where r: "hwc_list_remove m (Link_of plane) = Inr ma"
    and f: "and_then (read_plane ma plane) (\<lambda>p.
              and_then (free_props ma (obj_props p)) (\<lambda>m2. free_plane m2 plane)) = Inr m1"
    by (auto simp: plane_destroy_def and_then_def split: sum.splits)
  from r have la: "length (plane_objs ma) = length (plane_objs m)"
    by (auto simp: hwc_list_remove_def and_then_def w split: sum.splits)
  from f obtain p mb where p: "read_plane ma plane = Inr p"
    and fp: "free_props ma (obj_props p) = Inr mb" and fl: "free_plane mb plane = Inr m1"
    by (auto simp: and_then_def split: sum.splits)
  from fp have lb: "plane_objs mb = plane_objs ma"
    by (auto simp: free_props_def split: if_splits option.splits)
  from p have "plane \<noteq> 0" and "map_of (plane_objs ma) plane = Some p"
    by (auto simp: read_plane_def split: if_splits option.splits)
  then have "(plane, p) \<in> set (plane_objs mb)" using lb by (simp add: map_of_SomeD)
  with fl \<open>plane \<noteq> 0\<close> have "length (plane_objs m1) < length (plane_objs mb)"
    by (auto simp: free_plane_def split: option.splits intro!: length_filter_less[of "(plane, p)"])
  with la lb show "((m1, head, tmp, next t), (m, head, pos, tmp))
      \<in> measure (\<lambda>(m, head, pos, tmp). length (plane_objs m))"
    by simp
qed

definition hwc_display_destroy :: "memory \<Rightarrow> addr \<Rightarrow> fault + memory" where
  "hwc_display_destroy m display =
     and_then (read_display m display) (\<lambda>d.
     (let m1 = close m (obj_drm_fd d)
      in and_then (read_list m1 (Planes_of display)) (\<lambda>h.
         and_then (read_list m1 (next h)) (\<lambda>p.
         and_then (destroy_planes m1 (Planes_of display) (next h) (next p)) (\<lambda>m2.
         free_display m2 display)))))"


text \<open>The allocations of \<^verbatim>\<open>display.c\<close>: a display, a plane, an array of properties.\<close>

definition calloc_display :: "os \<Rightarrow> memory \<Rightarrow> addr \<times> memory" where
  "calloc_display sys m =
     (case calloc sys m of
        (a, m1) \<Rightarrow>
          if a = 0 then (0, m1)
          else (a, m1\<lparr>display_objs := (a, zero_display) # display_objs m1\<rparr>))"

definition calloc_plane :: "os \<Rightarrow> memory \<Rightarrow> addr \<times> memory" where
  "calloc_plane sys m =
     (case calloc sys m of
        (a, m1) \<Rightarrow>
          if a = 0 then (0, m1)
          else (a, m1\<lparr>plane_objs := (a, zero_plane) # plane_objs m1\<rparr>))"

definition calloc_props :: "os \<Rightarrow> memory \<Rightarrow> nat \<Rightarrow> addr \<times> memory" where
  "calloc_props sys m n =
     (case calloc sys m of
        (a, m1) \<Rightarrow>
          if a = 0 then (0, m1)
          else (a, m1\<lparr>prop_arrays :=
                        (a, replicate n \<lparr>pp_name = [], pp_id = 0\<rparr>) # prop_arrays m1\<rparr>))"

text \<open>The assignment \<^verbatim>\<open>plane->props[i] = ...\<close> together with \<^verbatim>\<open>plane->props_len++\<close>.\<close>

definition store_prop :: "memory \<Rightarrow> addr \<Rightarrow> nat \<Rightarrow> hwc_plane_property \<Rightarrow> fault + memory" where
  "store_prop m plane i dp =
     and_then (read_plane m plane) (\<lambda>p.
       if obj_props p = 0 then Inl Null_dereference
       else case map_of (prop_arrays m) (obj_props p) of
              None \<Rightarrow> Inl Invalid_pointer
            | Some arr \<Rightarrow>
                if length arr \<le> i then Inl Invalid_pointer
                else Inr (write_plane
                       (m\<lparr>prop_arrays :=
                            map (\<lambda>x. if fst x = obj_props p then (obj_props p, arr[i := dp]) else x)
                              (prop_arrays m)\<rparr>)
                       plane (p\<lparr>obj_props_len := Suc (obj_props_len p)\<rparr>)))"

text \<open>The loop of \<^verbatim>\<open>plane_create\<close> over the properties; false when a query fails.\<close>

fun read_props :: "os \<Rightarrow> memory \<Rightarrow> addr \<Rightarrow> nat \<Rightarrow> 32 word list \<Rightarrow> fault + (bool \<times> memory)" where
  "read_props sys m plane i [] = Inr (True, m)"
| "read_props sys m plane i (pid # pids) =
     (case drm_property sys pid of
        None \<Rightarrow> Inr (False, m)
      | Some dp \<Rightarrow>
          (case store_prop m plane i dp of
             Inl f \<Rightarrow> Inl f
           | Inr m1 \<Rightarrow> read_props sys m1 plane (Suc i) pids))"

definition plane_create :: "os \<Rightarrow> memory \<Rightarrow> addr \<Rightarrow> 32 word \<Rightarrow> fault + (addr \<times> memory)" where
  "plane_create sys m display pid =
     (case calloc_plane sys m of
        (plane, m1) \<Rightarrow>
          if plane = 0 then Inr (0, m1)
          else
            and_then (read_display m1 display) (\<lambda>d.
            case drm_plane sys pid of
              None \<Rightarrow> Inr (0, m1)
            | Some (pl_id, crtcs) \<Rightarrow>
                and_then (read_plane m1 plane) (\<lambda>p.
                let m2 = write_plane m1 plane (p\<lparr>obj_id := pl_id, obj_possible_crtcs := crtcs\<rparr>)
                in case object_properties sys pid of
                     None \<Rightarrow> Inr (0, m2)
                   | Some pids \<Rightarrow>
                       (case calloc_props sys m2 (length pids) of
                          (arr, m3) \<Rightarrow>
                            and_then (read_plane m3 plane) (\<lambda>p3.
                            let m4 = write_plane m3 plane (p3\<lparr>obj_props := arr\<rparr>)
                            in if arr = 0 then Inr (0, m4)
                               else
                                 and_then (read_props sys m4 plane 0 pids) (\<lambda>(ok, m5).
                                 if \<not> ok then Inr (0, m5)
                                 else
                                   and_then (read_list m5 (Planes_of display)) (\<lambda>h.
                                   and_then (hwc_list_insert m5 (prev h) (Link_of plane)) (\<lambda>m6.
                                   Inr (plane, m6)))))))))"

text \<open>The loop of \<^verbatim>\<open>hwc_display_create\<close> over the planes; false when a plane is not created.\<close>

fun create_planes :: "os \<Rightarrow> memory \<Rightarrow> addr \<Rightarrow> 32 word list \<Rightarrow> fault + (bool \<times> memory)" where
  "create_planes sys m display [] = Inr (True, m)"
| "create_planes sys m display (pid # pids) =
     (case plane_create sys m display pid of
        Inl f \<Rightarrow> Inl f
      | Inr (plane, m1) \<Rightarrow>
          if plane = 0 then Inr (False, m1) else create_planes sys m1 display pids)"

definition hwc_display_create :: "os \<Rightarrow> memory \<Rightarrow> int \<Rightarrow> fault + (addr \<times> memory)" where
  "hwc_display_create sys m fd =
     (case calloc_display sys m of
        (display, m1) \<Rightarrow>
          if display = 0 then Inr (0, m1)
          else
            (case dup sys m1 fd of
               (new_fd, m2) \<Rightarrow>
                 and_then (read_display m2 display) (\<lambda>d.
                 let m3 = write_display m2 display (d\<lparr>obj_drm_fd := new_fd\<rparr>)
                 in if new_fd < 0 then
                      and_then (hwc_display_destroy m3 display) (\<lambda>m4. Inr (0, m4))
                    else
                      and_then (hwc_list_init m3 (Planes_of display)) (\<lambda>m4.
                      and_then (hwc_list_init m4 (Outputs_of display)) (\<lambda>m5.
                      case plane_resources sys of
                        None \<Rightarrow> and_then (hwc_display_destroy m5 display) (\<lambda>m6. Inr (0, m6))
                      | Some pids \<Rightarrow>
                          and_then (create_planes sys m5 display pids) (\<lambda>(ok, m6).
                          if \<not> ok then
                            and_then (hwc_display_destroy m6 display) (\<lambda>m7. Inr (0, m7))
                          else Inr (display, m6)))))))"


section \<open>The spec's description of the writes\<close>

text \<open>
  The spec resolves a name against the plane's property table: the entry of the table
  that carries the name (the first one, should the table hold the name twice). This is
  stated on the table itself, with the library's \<open>find\<close>, not with the lookup of the code.
\<close>

definition resolve :: "hwc_plane \<Rightarrow> string \<Rightarrow> hwc_plane_property option" where
  "resolve plane n = find (\<lambda>p. pp_name p = n) (plane_props plane)"

text \<open>
  The writes that the spec lists for the enable mode, in its order: the CRTC-ownership
  write, then one write for each pair of the layer's property set. An entry is \<open>None\<close>
  when the plane's table does not resolve the name.
\<close>

definition enable_writes ::
  "hwc_plane \<Rightarrow> 32 word \<Rightarrow> hwc_layer_property list \<Rightarrow> item option list" where
  "enable_writes plane crtc lps =
     map_option (\<lambda>cp. (plane_id plane, pp_id cp, ucast crtc)) (resolve plane ''CRTC_ID'')
     # map (\<lambda>lp. map_option (\<lambda>pp. (plane_id plane, pp_id pp, lp_value lp))
                   (resolve plane (lp_name lp))) lps"

text \<open>
  The write that the spec lists for the disable mode: value 0 to the plane's \<^verbatim>\<open>FB_ID\<close>
  property; \<open>None\<close> when the plane has no such property.
\<close>

definition disable_write :: "hwc_plane \<Rightarrow> item option" where
  "disable_write plane =
     map_option (\<lambda>pp. (plane_id plane, pp_id pp, 0)) (resolve plane ''FB_ID'')"

section \<open>Pairing references\<close>

text \<open>
  A layer reference is valid when it names a layer of the display. The pairing
  references are consistent when every plane that names a layer is named back by that
  layer, and every layer that names a plane is named back by that plane.
\<close>

definition valid_layer :: "hwc_display \<Rightarrow> layer_ref \<Rightarrow> bool" where
  "valid_layer d r \<longleftrightarrow> fst r < length (outputs d) \<and> snd r < length (layers (outputs d ! fst r))"

definition plane_refs_ok :: "hwc_display \<Rightarrow> bool" where
  "plane_refs_ok d \<longleftrightarrow>
     (\<forall>i<length (planes d).
        case plane_layer (planes d ! i) of
          None \<Rightarrow> True
        | Some r \<Rightarrow> valid_layer d r \<and> layer_plane (get_layer d r) = Some i)"

definition layer_refs_ok :: "hwc_display \<Rightarrow> bool" where
  "layer_refs_ok d \<longleftrightarrow>
     (\<forall>oi<length (outputs d). \<forall>li<length (layers (outputs d ! oi)).
        case layer_plane (get_layer d (oi, li)) of
          None \<Rightarrow> True
        | Some i \<Rightarrow> i < length (planes d) \<and> plane_layer (planes d ! i) = Some (oi, li))"

definition pairing_consistent :: "hwc_display \<Rightarrow> bool" where
  "pairing_consistent d \<longleftrightarrow>
     (\<forall>i<length (planes d).
        case plane_layer (planes d ! i) of
          None \<Rightarrow> True
        | Some r \<Rightarrow> valid_layer d r \<and> layer_plane (get_layer d r) = Some i) \<and>
     (\<forall>oi<length (outputs d). \<forall>li<length (layers (outputs d ! oi)).
        case layer_plane (get_layer d (oi, li)) of
          None \<Rightarrow> True
        | Some i \<Rightarrow> i < length (planes d) \<and> plane_layer (planes d ! i) = Some (oi, li))"

text \<open>The display with every pairing reference emptied, and nothing else changed.\<close>

definition unpaired :: "hwc_display \<Rightarrow> hwc_display" where
  "unpaired d =
     d\<lparr>planes := map (\<lambda>p. p\<lparr>plane_layer := None\<rparr>) (planes d),
       outputs := map (\<lambda>out. out\<lparr>layers := map (\<lambda>l. l\<lparr>layer_plane := None\<rparr>) (layers out)\<rparr>)
                    (outputs d)\<rparr>"

section \<open>What a pass prints and appends\<close>

text \<open>
  The messages that the program prints when it gives up: the two \<^verbatim>\<open>perror\<close> calls and
  the missing-property message. The message of the disable loop.
\<close>

fun fatal :: "msg \<Rightarrow> bool" where
  "fatal (Perror s) = True"
| "fatal (Failed_to_find_property n) = True"
| "fatal m = False"

fun disabling :: "msg \<Rightarrow> bool" where
  "disabling (Disabling_plane i) = True"
| "disabling m = False"

text \<open>
  The text printed by a step that returns \<open>ok\<close>: no give-up message when it returns
  success, and exactly one, at the very end, when it returns failure.
\<close>

definition good_log :: "bool \<Rightarrow> msg list \<Rightarrow> bool" where
  "good_log ok out \<longleftrightarrow>
     (if ok then \<forall>m\<in>set out. \<not> fatal m
      else \<exists>pre m. out = pre @ [m] \<and> fatal m \<and> (\<forall>x\<in>set pre. \<not> fatal x))"

text \<open>
  \<open>extends dis w ok w'\<close>: the world \<open>w'\<close> comes from \<open>w\<close> by appending entries to the request
  and text of that shape to \<^verbatim>\<open>stderr\<close>; unless \<open>dis\<close> holds, the text has no message of the
  disable loop.
\<close>

definition extends :: "bool \<Rightarrow> world \<Rightarrow> bool \<Rightarrow> world \<Rightarrow> bool" where
  "extends dis w ok w' \<longleftrightarrow>
     (\<exists>ws. req w' = req w @ ws) \<and>
     (\<exists>out. stderr w' = stderr w @ out \<and> good_log ok out \<and>
            (dis \<or> (\<forall>m\<in>set out. \<not> disabling m)))"

section \<open>The same pass on another request\<close>

text \<open>
  \<open>rebase p s w\<close> is the world \<open>w\<close> with the entries \<open>p\<close> put in front of its request and
  the text \<open>s\<close> in front of its output; \<open>shift p k\<close> is the driver that answers a request
  as \<open>k\<close> answers it with \<open>p\<close> in front.
\<close>

definition rebase :: "atomic_req \<Rightarrow> msg list \<Rightarrow> world \<Rightarrow> world" where
  "rebase p s w = \<lparr>req = p @ req w, stderr = s @ stderr w\<rparr>"

definition shift :: "atomic_req \<Rightarrow> drm \<Rightarrow> drm" where
  "shift p k =
     \<lparr>add_property_ret = (\<lambda>r. add_property_ret k (p @ r)),
      test_commit_ret = (\<lambda>r. test_commit_ret k (p @ r))\<rparr>"

section \<open>A concrete display\<close>

text \<open>
  Two planes (ids 10 and 11) with the properties \<^verbatim>\<open>FB_ID\<close> and \<^verbatim>\<open>CRTC_ID\<close>, one output
  (CRTC id 5) with two layers that each set \<^verbatim>\<open>FB_ID\<close>, and a driver that rejects every
  request that puts plane 11 on CRTC 5 with \<^verbatim>\<open>EINVAL\<close>.
\<close>

definition plane_of :: "32 word \<Rightarrow> hwc_plane" where
  "plane_of i =
     \<lparr>plane_id = i, possible_crtcs = 1,
      plane_props = [\<lparr>pp_name = ''FB_ID'', pp_id = 1\<rparr>, \<lparr>pp_name = ''CRTC_ID'', pp_id = 2\<rparr>],
      plane_layer = None\<rparr>"

definition layer_of :: "64 word \<Rightarrow> hwc_layer" where
  "layer_of v = \<lparr>layer_props = [\<lparr>lp_name = ''FB_ID'', lp_value = v\<rparr>], layer_plane = None\<rparr>"

definition display0 :: hwc_display where
  "display0 =
     \<lparr>drm_fd = 3, planes = [plane_of 10, plane_of 11],
      outputs = [\<lparr>crtc_id = 5, layers = [layer_of 100, layer_of 200]\<rparr>]\<rparr>"

definition drm0 :: drm where
  "drm0 =
     \<lparr>add_property_ret = (\<lambda>r it. 1),
      test_commit_ret = (\<lambda>r. if (11, 2, 5) \<in> set r then - 22 else 0)\<rparr>"

definition world0 :: world where
  "world0 = \<lparr>req = [], stderr = []\<rparr>"

text \<open>
  The same display after a pass with that driver: plane 10 drives the first layer, the
  second layer has no plane; and the request and the text that the pass leaves.
\<close>

definition display1 :: hwc_display where
  "display1 =
     \<lparr>drm_fd = 3, planes = [(plane_of 10)\<lparr>plane_layer := Some (0, 0)\<rparr>, plane_of 11],
      outputs = [\<lparr>crtc_id = 5, layers = [(layer_of 100)\<lparr>layer_plane := Some 0\<rparr>, layer_of 200]\<rparr>]\<rparr>"

definition world1 :: world where
  "world1 =
     \<lparr>req = [(10, 1, 0), (11, 1, 0), (10, 2, 5), (10, 1, 100)],
      stderr =
        [Disabling_plane 10, Setting ''FB_ID'' 0, Disabling_plane 11, Setting ''FB_ID'' 0,
         Trying_to_apply (0, 0) 10, Setting ''CRTC_ID'' 5, Setting ''FB_ID'' 100, Success,
         Trying_to_apply (0, 1) 11, Setting ''CRTC_ID'' 5, Setting ''FB_ID'' 200, Failure,
         Failed_to_find_plane (0, 1)]\<rparr>"

text \<open>
  A display whose first plane cannot express the layer's property \<^verbatim>\<open>alpha\<close> while its
  second plane can, with a driver that accepts every request; and what a pass leaves
  there. A driver that answers every test with \<^verbatim>\<open>EBUSY\<close>, and what a pass on the first
  display leaves with it.
\<close>

definition display2 :: hwc_display where
  "display2 =
     \<lparr>drm_fd = 3,
      planes = [plane_of 10,
                (plane_of 11)\<lparr>plane_props := plane_props (plane_of 11) @ [\<lparr>pp_name = ''alpha'', pp_id = 3\<rparr>]\<rparr>],
      outputs = [\<lparr>crtc_id = 5,
                  layers = [\<lparr>layer_props = [\<lparr>lp_name = ''alpha'', lp_value = 7\<rparr>], layer_plane = None\<rparr>]\<rparr>]\<rparr>"

definition drm_accept :: drm where
  "drm_accept = \<lparr>add_property_ret = (\<lambda>r it. 1), test_commit_ret = (\<lambda>r. 0)\<rparr>"

definition world2 :: world where
  "world2 =
     \<lparr>req = [(10, 1, 0), (11, 1, 0), (10, 2, 5)],
      stderr =
        [Disabling_plane 10, Setting ''FB_ID'' 0, Disabling_plane 11, Setting ''FB_ID'' 0,
         Trying_to_apply (0, 0) 10, Setting ''CRTC_ID'' 5, Failed_to_find_property ''alpha'']\<rparr>"

definition drm_busy :: drm where
  "drm_busy = \<lparr>add_property_ret = (\<lambda>r it. 1), test_commit_ret = (\<lambda>r. - 16)\<rparr>"

definition world3 :: world where
  "world3 =
     \<lparr>req = [(10, 1, 0), (11, 1, 0), (10, 2, 5), (10, 1, 100)],
      stderr =
        [Disabling_plane 10, Setting ''FB_ID'' 0, Disabling_plane 11, Setting ''FB_ID'' 0,
         Trying_to_apply (0, 0) 10, Setting ''CRTC_ID'' 5, Setting ''FB_ID'' 100,
         Perror ''drmModeAtomicCommit'']\<rparr>"

text \<open>
  A display with two outputs, one layer on the first (CRTC id 5) and two on the second
  (CRTC id 6), and a driver that rejects plane 10 everywhere and plane 11 on CRTC 5 with
  \<^verbatim>\<open>ERANGE\<close>: plane 11 passes the test for either layer of the second output.
\<close>

definition display3 :: hwc_display where
  "display3 =
     \<lparr>drm_fd = 3, planes = [plane_of 10, plane_of 11],
      outputs = [\<lparr>crtc_id = 5, layers = [layer_of 100]\<rparr>,
                 \<lparr>crtc_id = 6, layers = [layer_of 200, layer_of 300]\<rparr>]\<rparr>"

definition drm3 :: drm where
  "drm3 =
     \<lparr>add_property_ret = (\<lambda>r it. 1),
      test_commit_ret =
        (\<lambda>r. if (10, 2, 5) \<in> set r \<or> (10, 2, 6) \<in> set r \<or> (11, 2, 5) \<in> set r then - 34 else 0)\<rparr>"

text \<open>A driver whose request cannot grow: every append fails with \<^verbatim>\<open>ENOMEM\<close>.\<close>

definition drm_no_memory :: drm where
  "drm_no_memory = \<lparr>add_property_ret = (\<lambda>r it. - 12), test_commit_ret = (\<lambda>r. 0)\<rparr>"

text \<open>
  A memory with nothing allocated and descriptor 3 open. An operating system and driver
  where every call succeeds (two planes with two properties each); the same where \<^verbatim>\<open>dup\<close>
  fails; the same where the query for plane 11 fails.
\<close>

definition memory0 :: memory where
  "memory0 = \<lparr>display_objs = [], plane_objs = [], prop_arrays = [], open_fds = [3], allocations = 0\<rparr>"

definition os_ok :: os where
  "os_ok =
     \<lparr>calloc_fails = (\<lambda>n. False), dup_ret = (\<lambda>fd. fd + 1),
      plane_resources = Some [10, 11], drm_plane = (\<lambda>i. Some (i, 1)),
      object_properties = (\<lambda>i. Some [1, 2]),
      drm_property = (\<lambda>i. Some \<lparr>pp_name = (if i = 1 then ''FB_ID'' else ''CRTC_ID''), pp_id = i\<rparr>)\<rparr>"

definition os_no_dup :: os where
  "os_no_dup = os_ok\<lparr>dup_ret := (\<lambda>fd. - 1)\<rparr>"

definition os_no_plane :: os where
  "os_no_plane = os_ok\<lparr>drm_plane := (\<lambda>i. if i = 11 then None else Some (i, 1))\<rparr>"

lemmas model_defs =
  hwc_display_apply_def unset_mappings_def unset_mapping_def layer_choose_plane_def
  plane_apply_def plane_set_prop_def plane_get_property_def fprintf_def
  drmModeAtomicAddProperty_def drmModeAtomicGetCursor_def drmModeAtomicSetCursor_def
  drmModeAtomicCommit_def set_layer_plane_def set_plane_layer_def get_layer_def
  EINVAL_def ERANGE_def

lemmas example_defs =
  plane_of_def layer_of_def display0_def drm0_def world0_def display1_def world1_def
  display2_def drm_accept_def drm_busy_def world2_def world3_def drm_no_memory_def

section \<open>The enable mode of the property application engine\<close>

lemma get_property_find: "get_property ps n = find (\<lambda>p. pp_name p = n) ps"
  by (induction ps) simp_all

lemma plane_get_property_resolve: "plane_get_property plane n = resolve plane n"
  by (simp add: plane_get_property_def resolve_def get_property_find)

lemma enable_writes_code:
  "enable_writes plane crtc lps =
     map_option (\<lambda>cp. (plane_id plane, pp_id cp, ucast crtc)) (plane_get_property plane ''CRTC_ID'')
     # map (\<lambda>lp. map_option (\<lambda>pp. (plane_id plane, pp_id pp, lp_value lp))
                   (plane_get_property plane (lp_name lp))) lps"
  by (simp add: enable_writes_def plane_get_property_resolve)

lemma disable_write_code:
  "disable_write plane =
     map_option (\<lambda>pp. (plane_id plane, pp_id pp, 0)) (plane_get_property plane ''FB_ID'')"
  by (simp add: disable_write_def plane_get_property_resolve)

lemma resolve_in_table:
  "resolve plane n = Some pp \<Longrightarrow> pp \<in> set (plane_props plane) \<and> pp_name pp = n"
  by (auto simp: resolve_def find_Some_iff)

lemma plane_set_prop_req:
  "plane_set_prop k plane w pp v = (ok, w') \<Longrightarrow>
     req w' = req w @ (if ok then [(plane_id plane, pp_id pp, v)] else [])"
  by (auto simp: plane_set_prop_def drmModeAtomicAddProperty_def fprintf_def Let_def
      split: if_splits)

lemma plane_set_prop_no_commit:
  "plane_set_prop (k\<lparr>test_commit_ret := f\<rparr>) plane w pp v = plane_set_prop k plane w pp v"
  by (simp add: plane_set_prop_def drmModeAtomicAddProperty_def)

lemma apply_layer_props_no_commit:
  "apply_layer_props (k\<lparr>test_commit_ret := f\<rparr>) plane lps w = apply_layer_props k plane lps w"
  by (induction lps arbitrary: w)
     (auto simp: plane_set_prop_no_commit split: option.splits bool.splits prod.splits)

lemma plane_apply_no_commit:
  "plane_apply (k\<lparr>test_commit_ret := f\<rparr>) d plane l w = plane_apply k d plane l w"
  by (simp add: plane_apply_def plane_set_prop_no_commit apply_layer_props_no_commit
      split: option.splits prod.splits bool.splits)

lemma apply_layer_props_req:
  "apply_layer_props k plane lps w = (ok, w') \<Longrightarrow>
     \<exists>ws n. req w' = req w @ ws \<and>
       map Some ws = take n (map (\<lambda>lp. map_option (\<lambda>pp. (plane_id plane, pp_id pp, lp_value lp))
                   (plane_get_property plane (lp_name lp))) lps) \<and>
       (ok \<longrightarrow> n = length lps)"
proof (induction lps arbitrary: w)
  case Nil
  then show ?case by auto
next
  case (Cons lp lps)
  show ?case
  proof (cases "plane_get_property plane (lp_name lp)")
    case None
    with Cons.prems have "req w' = req w" "\<not> ok"
      by (auto simp: fprintf_def)
    then show ?thesis
      by (intro exI[of _ "[]"] exI[of _ 0]) simp
  next
    case (Some pp)
    obtain ok1 w1 where s: "plane_set_prop k plane w pp (lp_value lp) = (ok1, w1)"
      by (cases "plane_set_prop k plane w pp (lp_value lp)")
    show ?thesis
    proof (cases ok1)
      case False
      with Cons.prems Some s have "w' = w1" "\<not> ok" by auto
      with plane_set_prop_req[OF s] False have "req w' = req w" by simp
      with \<open>\<not> ok\<close> show ?thesis
        by (intro exI[of _ "[]"] exI[of _ 0]) simp
    next
      case True
      with Cons.prems Some s have r: "apply_layer_props k plane lps w1 = (ok, w')" by simp
      from Cons.IH[OF r] obtain ws n where
        ws: "req w' = req w1 @ ws"
          "map Some ws = take n (map (\<lambda>lp. map_option (\<lambda>pp. (plane_id plane, pp_id pp, lp_value lp))
                   (plane_get_property plane (lp_name lp))) lps)"
          "ok \<longrightarrow> n = length lps"
        by blast
      from plane_set_prop_req[OF s] True
      have w1: "req w1 = req w @ [(plane_id plane, pp_id pp, lp_value lp)]" by simp
      show ?thesis
        using ws w1 Some
        by (intro exI[of _ "(plane_id plane, pp_id pp, lp_value lp) # ws"] exI[of _ "Suc n"]) simp
    qed
  qed
qed

lemma enable_writes_entries:
  assumes "map Some ws = enable_writes plane crtc lps"
  shows "length ws = Suc (length lps) \<and>
         (\<exists>cp\<in>set (plane_props plane). pp_name cp = ''CRTC_ID'' \<and>
            ws ! 0 = (plane_id plane, pp_id cp, ucast crtc)) \<and>
         (\<forall>n<length lps. \<exists>pp\<in>set (plane_props plane). pp_name pp = lp_name (lps ! n) \<and>
            ws ! Suc n = (plane_id plane, pp_id pp, lp_value (lps ! n)))"
proof (intro conjI allI impI)
  from assms have "length (map Some ws) = length (enable_writes plane crtc lps)" by simp
  then show len: "length ws = Suc (length lps)" by (simp add: enable_writes_def)
  from assms have "map Some ws ! 0 = enable_writes plane crtc lps ! 0" by simp
  with len have "Some (ws ! 0) =
      map_option (\<lambda>cp. (plane_id plane, pp_id cp, ucast crtc)) (resolve plane ''CRTC_ID'')"
    by (simp add: enable_writes_def)
  then obtain cp where "resolve plane ''CRTC_ID'' = Some cp"
    "ws ! 0 = (plane_id plane, pp_id cp, ucast crtc)"
    by (cases "resolve plane ''CRTC_ID''") auto
  with resolve_in_table[of plane "''CRTC_ID''" cp]
  show "\<exists>cp\<in>set (plane_props plane). pp_name cp = ''CRTC_ID'' \<and>
            ws ! 0 = (plane_id plane, pp_id cp, ucast crtc)"
    by blast
  fix n assume n: "n < length lps"
  from assms have "map Some ws ! Suc n = enable_writes plane crtc lps ! Suc n" by simp
  with len n have "Some (ws ! Suc n) =
      map_option (\<lambda>pp. (plane_id plane, pp_id pp, lp_value (lps ! n))) (resolve plane (lp_name (lps ! n)))"
    by (simp add: enable_writes_def)
  then obtain pp where "resolve plane (lp_name (lps ! n)) = Some pp"
    "ws ! Suc n = (plane_id plane, pp_id pp, lp_value (lps ! n))"
    by (cases "resolve plane (lp_name (lps ! n))") auto
  with resolve_in_table[of plane "lp_name (lps ! n)" pp]
  show "\<exists>pp\<in>set (plane_props plane). pp_name pp = lp_name (lps ! n) \<and>
            ws ! Suc n = (plane_id plane, pp_id pp, lp_value (lps ! n))"
    by blast
qed


lemma plane_apply_enable_req:
  assumes "plane_apply k d plane (Some r) w = Inr (ok, w')"
  shows "(\<exists>ws n. req w' = req w @ ws \<and>
            map Some ws = take n (enable_writes plane (crtc_id (outputs d ! fst r))
                                    (layer_props (get_layer d r))) \<and>
            (ok \<longrightarrow> map Some ws = enable_writes plane (crtc_id (outputs d ! fst r))
                                    (layer_props (get_layer d r)))) \<and>
         (\<forall>f. plane_apply (k\<lparr>test_commit_ret := f\<rparr>) d plane (Some r) w = Inr (ok, w'))"
proof
  let ?lps = "layer_props (get_layer d r)"
  let ?crtc = "crtc_id (outputs d ! fst r)"
  from assms obtain cp where cp: "plane_get_property plane ''CRTC_ID'' = Some cp"
    by (auto simp: plane_apply_def split: option.splits)
  obtain ok1 w1 where s: "plane_set_prop k plane w cp (ucast ?crtc) = (ok1, w1)"
    by (cases "plane_set_prop k plane w cp (ucast ?crtc)")
  show "\<exists>ws n. req w' = req w @ ws \<and> map Some ws = take n (enable_writes plane ?crtc ?lps) \<and>
            (ok \<longrightarrow> map Some ws = enable_writes plane ?crtc ?lps)"
  proof (cases ok1)
    case False
    with assms cp s have "w' = w1" "\<not> ok" by (auto simp: plane_apply_def)
    with plane_set_prop_req[OF s] False have "req w' = req w" by simp
    with \<open>\<not> ok\<close> show ?thesis
      by (intro exI[of _ "[]"] exI[of _ 0]) simp
  next
    case True
    with assms cp s have r: "apply_layer_props k plane ?lps w1 = (ok, w')"
      by (auto simp: plane_apply_def)
    from apply_layer_props_req[OF r] obtain ws n where
      ws: "req w' = req w1 @ ws"
        "map Some ws = take n (map (\<lambda>lp. map_option (\<lambda>pp. (plane_id plane, pp_id pp, lp_value lp))
                   (plane_get_property plane (lp_name lp))) ?lps)"
        "ok \<longrightarrow> n = length ?lps"
      by blast
    from plane_set_prop_req[OF s] True
    have w1: "req w1 = req w @ [(plane_id plane, pp_id cp, ucast ?crtc)]" by simp
    show ?thesis
      using ws w1 cp
      by (intro exI[of _ "(plane_id plane, pp_id cp, ucast ?crtc) # ws"] exI[of _ "Suc n"])
         (auto simp: enable_writes_code)
  qed
next
  show "\<forall>f. plane_apply (k\<lparr>test_commit_ret := f\<rparr>) d plane (Some r) w = Inr (ok, w')"
    using assms by (simp add: plane_apply_no_commit)
qed

text \<open>
  Claim C7. When the enable mode of \<open>plane_apply\<close> returns, the entries it has appended to
  the request are an initial part of the spec's list of writes (the CRTC_ID write with
  the CRTC id of the layer's output first, then one write for each pair of the layer's
  property set in list order, each to the plane property of that name), and all of that
  list when it returns success. Spelled out for a success: the request has grown by one
  entry plus one per pair of the layer's property set; the first new entry writes the
  CRTC id of the layer's output to a property that lies in the plane's property table
  under the name \<^verbatim>\<open>CRTC_ID\<close>; the new entry after it at position \<open>n\<close> writes the value of
  the \<open>n\<close>-th pair to a property that lies in the plane's property table under the name
  of that pair; every entry carries the plane's id. The enable mode issues no commit: its
  result does not depend on what the driver would answer to a test. It returns nothing
  but the request and the text printed, so it changes no plane, layer or output.
\<close>

theorem plane_apply_enable_writes:
  assumes "plane_apply k d plane (Some r) w = Inr (ok, w')"
  shows "(\<exists>ws n. req w' = req w @ ws \<and>
            map Some ws = take n (enable_writes plane (crtc_id (outputs d ! fst r))
                                    (layer_props (layers (outputs d ! fst r) ! snd r))) \<and>
            (ok \<longrightarrow> map Some ws = enable_writes plane (crtc_id (outputs d ! fst r))
                                    (layer_props (layers (outputs d ! fst r) ! snd r)))) \<and>
         (ok \<longrightarrow>
            length (req w') =
              length (req w) + 1 + length (layer_props (layers (outputs d ! fst r) ! snd r)) \<and>
            (\<exists>cp\<in>set (plane_props plane). pp_name cp = ''CRTC_ID'' \<and>
               req w' ! length (req w) =
                 (plane_id plane, pp_id cp, ucast (crtc_id (outputs d ! fst r)))) \<and>
            (\<forall>n<length (layer_props (layers (outputs d ! fst r) ! snd r)).
               \<exists>pp\<in>set (plane_props plane).
                 pp_name pp = lp_name (layer_props (layers (outputs d ! fst r) ! snd r) ! n) \<and>
                 req w' ! (length (req w) + 1 + n) =
                   (plane_id plane, pp_id pp,
                    lp_value (layer_props (layers (outputs d ! fst r) ! snd r) ! n)))) \<and>
         (\<forall>f. plane_apply (k\<lparr>test_commit_ret := f\<rparr>) d plane (Some r) w = Inr (ok, w'))"
proof -
  let ?lps = "layer_props (layers (outputs d ! fst r) ! snd r)"
  let ?crtc = "crtc_id (outputs d ! fst r)"
  from plane_apply_enable_req[OF assms, unfolded get_layer_def] obtain ws n where
    ws: "req w' = req w @ ws" "map Some ws = take n (enable_writes plane ?crtc ?lps)"
      "ok \<longrightarrow> map Some ws = enable_writes plane ?crtc ?lps"
    and nc: "\<forall>f. plane_apply (k\<lparr>test_commit_ret := f\<rparr>) d plane (Some r) w = Inr (ok, w')"
    by blast
  have "length (req w') = length (req w) + 1 + length ?lps \<and>
        (\<exists>cp\<in>set (plane_props plane). pp_name cp = ''CRTC_ID'' \<and>
           req w' ! length (req w) = (plane_id plane, pp_id cp, ucast ?crtc)) \<and>
        (\<forall>n<length ?lps. \<exists>pp\<in>set (plane_props plane). pp_name pp = lp_name (?lps ! n) \<and>
           req w' ! (length (req w) + 1 + n) = (plane_id plane, pp_id pp, lp_value (?lps ! n)))"
    if ok
  proof -
    from that ws(3) have "map Some ws = enable_writes plane ?crtc ?lps" by simp
    from enable_writes_entries[OF this] ws(1) show ?thesis
      by (simp add: nth_append)
  qed
  with ws nc show ?thesis by blast
qed

theorem plane_apply_enable_writes_witness:
  "plane_apply drm0 display0 (plane_of 10) (Some (0, 0)) world0 =
     Inr (True, \<lparr>req = [(10, 2, 5), (10, 1, 100)],
                 stderr = [Setting ''CRTC_ID'' 5, Setting ''FB_ID'' 100]\<rparr>) \<and>
   enable_writes (plane_of 10) 5 [\<lparr>lp_name = ''FB_ID'', lp_value = 100\<rparr>] =
     [Some (10, 2, 5), Some (10, 1, 100)] \<and>
   (\<exists>cp\<in>set (plane_props (plane_of 10)). pp_name cp = ''CRTC_ID'' \<and> pp_id cp = 2) \<and>
   (\<exists>pp\<in>set (plane_props (plane_of 10)). pp_name pp = ''FB_ID'' \<and> pp_id pp = 1) \<and>
   (\<forall>f. plane_apply (drm0\<lparr>test_commit_ret := f\<rparr>) display0 (plane_of 10) (Some (0, 0)) world0 =
     Inr (True, \<lparr>req = [(10, 2, 5), (10, 1, 100)],
                 stderr = [Setting ''CRTC_ID'' 5, Setting ''FB_ID'' 100]\<rparr>))"
proof -
  have h: "plane_apply drm0 display0 (plane_of 10) (Some (0, 0)) world0 =
     Inr (True, \<lparr>req = [(10, 2, 5), (10, 1, 100)],
                 stderr = [Setting ''CRTC_ID'' 5, Setting ''FB_ID'' 100]\<rparr>)"
    by (simp add: model_defs example_defs)
  have e: "enable_writes (plane_of 10) 5 [\<lparr>lp_name = ''FB_ID'', lp_value = 100\<rparr>] =
     [Some (10, 2, 5), Some (10, 1, 100)]"
    by (simp add: enable_writes_def resolve_def plane_of_def)
  note t = plane_apply_enable_writes[OF h]
  from t have c': "\<exists>cp\<in>set (plane_props (plane_of 10)). pp_name cp = ''CRTC_ID'' \<and> pp_id cp = 2"
    by (auto simp: world0_def display0_def layer_of_def)
  from t have p: "\<exists>pp\<in>set (plane_props (plane_of 10)). pp_name pp = ''FB_ID'' \<and> pp_id pp = 1"
    by (auto simp: world0_def display0_def layer_of_def)
  from t have f: "\<forall>f. plane_apply (drm0\<lparr>test_commit_ret := f\<rparr>) display0 (plane_of 10) (Some (0, 0)) world0 =
     Inr (True, \<lparr>req = [(10, 2, 5), (10, 1, 100)],
                 stderr = [Setting ''CRTC_ID'' 5, Setting ''FB_ID'' 100]\<rparr>)"
    by blast
  from h e c' p f show ?thesis by blast
qed

section \<open>Pairing references: what the pass keeps\<close>

lemma nth_list_update_any:
  "xs[i := x] ! j = (if j = i \<and> i < length xs then x else xs ! j)"
  by (cases "i < length xs") (auto simp: nth_list_update not_less list_update_beyond)

lemma map_list_update_same:
  "f x = f (xs ! i) \<Longrightarrow> map f (xs[i := x]) = map f xs"
  by (cases "i < length xs") (auto simp: map_update list_update_same_conv not_less list_update_beyond)

lemma planes_set_layer_plane [simp]: "planes (set_layer_plane d r v) = planes d"
  by (simp add: set_layer_plane_def)

lemma outputs_set_plane_layer [simp]: "outputs (set_plane_layer d i v) = outputs d"
  by (simp add: set_plane_layer_def)

lemma length_planes_set_plane_layer [simp]:
  "length (planes (set_plane_layer d i v)) = length (planes d)"
  by (simp add: set_plane_layer_def)

lemma length_outputs_set_layer_plane [simp]:
  "length (outputs (set_layer_plane d r v)) = length (outputs d)"
  by (simp add: set_layer_plane_def)

lemma nth_planes_set_plane_layer:
  "planes (set_plane_layer d i v) ! j =
     (if j = i \<and> i < length (planes d) then (planes d ! i)\<lparr>plane_layer := v\<rparr> else planes d ! j)"
  by (simp add: set_plane_layer_def nth_list_update_any)

lemma plane_layer_set_plane_layer:
  "plane_layer (planes (set_plane_layer d i v) ! j) =
     (if j = i \<and> i < length (planes d) then v else plane_layer (planes d ! j))"
  by (simp add: nth_planes_set_plane_layer)

lemma length_layers_set_layer_plane [simp]:
  "length (layers (outputs (set_layer_plane d r v) ! oi)) = length (layers (outputs d ! oi))"
  by (simp add: set_layer_plane_def nth_list_update_any)

lemma valid_layer_set_layer_plane [simp]:
  "valid_layer (set_layer_plane d r v) r' = valid_layer d r'"
  by (simp add: valid_layer_def)

lemma valid_layer_set_plane_layer [simp]:
  "valid_layer (set_plane_layer d i v) r' = valid_layer d r'"
  by (simp add: valid_layer_def)

lemma get_layer_set_plane_layer [simp]: "get_layer (set_plane_layer d i v) r = get_layer d r"
  by (simp add: get_layer_def)

lemma get_layer_set_layer_plane:
  "valid_layer d r' \<Longrightarrow>
     get_layer (set_layer_plane d r v) r' =
       (if r' = r then (get_layer d r)\<lparr>layer_plane := v\<rparr> else get_layer d r')"
  by (auto simp: set_layer_plane_def get_layer_def valid_layer_def nth_list_update_any prod_eq_iff)

lemma layer_plane_set_layer_plane:
  "valid_layer d r' \<Longrightarrow>
     layer_plane (get_layer (set_layer_plane d r v) r') =
       (if r' = r then v else layer_plane (get_layer d r'))"
  by (simp add: get_layer_set_layer_plane)

lemma unpaired_set_plane_layer [simp]: "unpaired (set_plane_layer d i v) = unpaired d"
  by (simp add: unpaired_def set_plane_layer_def map_list_update_same)

lemma unpaired_set_layer_plane [simp]: "unpaired (set_layer_plane d r v) = unpaired d"
  by (simp add: unpaired_def set_layer_plane_def get_layer_def map_list_update_same)

lemma unpaired_unset_mapping [simp]: "unpaired (unset_mapping d i) = unpaired d"
  by (simp add: unset_mapping_def split: option.splits)

lemma unpaired_foldl_unset: "unpaired (foldl unset_mapping d is) = unpaired d"
  by (induction "is" arbitrary: d) simp_all

lemma unpaired_unset_mappings [simp]: "unpaired (unset_mappings d) = unpaired d"
  by (simp add: unset_mappings_def unpaired_foldl_unset)

lemma unpaired_idem [simp]: "unpaired (unpaired d) = unpaired d"
  by (simp add: unpaired_def comp_def)


lemma pairing_consistent_iff: "pairing_consistent d \<longleftrightarrow> plane_refs_ok d \<and> layer_refs_ok d"
  by (simp add: pairing_consistent_def plane_refs_ok_def layer_refs_ok_def)

lemma length_planes_unset_mapping [simp]:
  "length (planes (unset_mapping d i)) = length (planes d)"
  by (simp add: unset_mapping_def split: option.splits)

lemma plane_layer_unset_mapping:
  "i < length (planes d) \<Longrightarrow>
     plane_layer (planes (unset_mapping d i) ! j) =
       (if j = i then None else plane_layer (planes d ! j))"
  by (auto simp: unset_mapping_def plane_layer_set_plane_layer split: option.splits)

lemma plane_layer_foldl_unset:
  "\<forall>i\<in>set is. i < length (planes d) \<Longrightarrow>
     plane_layer (planes (foldl unset_mapping d is) ! j) =
       (if j \<in> set is then None else plane_layer (planes d ! j))"
  by (induction "is" arbitrary: d) (auto simp: plane_layer_unset_mapping)

lemma length_planes_foldl_unset [simp]:
  "length (planes (foldl unset_mapping d is)) = length (planes d)"
  by (induction "is" arbitrary: d) auto

lemma planes_unset_mappings_None:
  "p \<in> set (planes (unset_mappings d)) \<Longrightarrow> plane_layer p = None"
  by (auto simp: unset_mappings_def in_set_conv_nth plane_layer_foldl_unset)

lemma layer_refs_ok_unset_mapping:
  assumes "layer_refs_ok d"
  shows "layer_refs_ok (unset_mapping d i)"
proof (cases "plane_layer (planes d ! i)")
  case None
  with assms show ?thesis by (simp add: unset_mapping_def)
next
  case (Some r)
  have "layer_refs_ok (set_plane_layer (set_layer_plane d r None) i None)"
    unfolding layer_refs_ok_def
  proof (intro allI impI)
    fix oi li
    assume "oi < length (outputs (set_plane_layer (set_layer_plane d r None) i None))"
      and "li < length (layers (outputs (set_plane_layer (set_layer_plane d r None) i None) ! oi))"
    then have v: "valid_layer d (oi, li)" by (simp add: valid_layer_def)
    show "case layer_plane (get_layer (set_plane_layer (set_layer_plane d r None) i None) (oi, li)) of
            None \<Rightarrow> True
          | Some j \<Rightarrow> j < length (planes (set_plane_layer (set_layer_plane d r None) i None)) \<and>
              plane_layer (planes (set_plane_layer (set_layer_plane d r None) i None) ! j) = Some (oi, li)"
    proof (cases "(oi, li) = r")
      case True
      with v show ?thesis by (simp add: layer_plane_set_layer_plane)
    next
      case False
      from assms v have
        "case layer_plane (get_layer d (oi, li)) of None \<Rightarrow> True
         | Some j \<Rightarrow> j < length (planes d) \<and> plane_layer (planes d ! j) = Some (oi, li)"
        by (simp add: layer_refs_ok_def valid_layer_def)
      with False v Some show ?thesis
        by (auto simp: layer_plane_set_layer_plane plane_layer_set_plane_layer split: option.splits)
    qed
  qed
  with Some show ?thesis by (simp add: unset_mapping_def)
qed

lemma layer_refs_ok_foldl_unset:
  "layer_refs_ok d \<Longrightarrow> layer_refs_ok (foldl unset_mapping d is)"
  by (induction "is" arbitrary: d) (auto simp: layer_refs_ok_unset_mapping)

lemma layers_unset_mappings_None:
  assumes "layer_refs_ok d" "out \<in> set (outputs (unset_mappings d))" "l \<in> set (layers out)"
  shows "layer_plane l = None"
proof -
  let ?d = "unset_mappings d"
  from assms(2,3) obtain oi li where
    i: "oi < length (outputs ?d)" "li < length (layers (outputs ?d ! oi))"
    and l: "l = get_layer ?d (oi, li)"
    by (auto simp: in_set_conv_nth get_layer_def)
  from assms(1) have "layer_refs_ok ?d"
    by (simp add: unset_mappings_def layer_refs_ok_foldl_unset)
  with i have
    "case layer_plane (get_layer ?d (oi, li)) of None \<Rightarrow> True
     | Some j \<Rightarrow> j < length (planes ?d) \<and> plane_layer (planes ?d ! j) = Some (oi, li)"
    by (simp add: layer_refs_ok_def)
  moreover have "j < length (planes ?d) \<Longrightarrow> plane_layer (planes ?d ! j) = None" for j
    by (rule planes_unset_mappings_None[of _ d]) simp
  ultimately show ?thesis
    using l by (cases "layer_plane (get_layer ?d (oi, li))") auto
qed

lemma unpaired_fixed:
  assumes "\<And>p. p \<in> set (planes d) \<Longrightarrow> plane_layer p = None"
    and "\<And>out l. out \<in> set (outputs d) \<Longrightarrow> l \<in> set (layers out) \<Longrightarrow> layer_plane l = None"
  shows "unpaired d = d"
proof -
  have "map (\<lambda>p. p\<lparr>plane_layer := None\<rparr>) (planes d) = planes d"
    using assms(1) by (intro map_idI) simp
  moreover have "map (\<lambda>out. out\<lparr>layers := map (\<lambda>l. l\<lparr>layer_plane := None\<rparr>) (layers out)\<rparr>) (outputs d)
      = outputs d"
  proof (intro map_idI)
    fix out assume o: "out \<in> set (outputs d)"
    have "map (\<lambda>l. l\<lparr>layer_plane := None\<rparr>) (layers out) = layers out"
      using assms(2)[OF o] by (intro map_idI) simp
    then show "out\<lparr>layers := map (\<lambda>l. l\<lparr>layer_plane := None\<rparr>) (layers out)\<rparr> = out" by simp
  qed
  ultimately show ?thesis by (simp add: unpaired_def)
qed

lemma unset_mappings_unpaired:
  assumes "layer_refs_ok d"
  shows "unset_mappings d = unpaired d"
proof -
  have "unpaired (unset_mappings d) = unset_mappings d"
    using planes_unset_mappings_None layers_unset_mappings_None[OF assms]
    by (intro unpaired_fixed) blast+
  then show ?thesis by simp
qed


lemma pair_consistent:
  assumes c: "pairing_consistent d"
    and j: "j < length (planes d)" "plane_layer (planes d ! j) = None"
    and r: "valid_layer d r" "layer_plane (get_layer d r) = None"
  shows "pairing_consistent (set_plane_layer (set_layer_plane d r (Some j)) j (Some r))"
proof -
  let ?d = "set_plane_layer (set_layer_plane d r (Some j)) j (Some r)"
  have "plane_refs_ok ?d"
    unfolding plane_refs_ok_def
  proof (intro allI impI)
    fix i assume "i < length (planes ?d)"
    then have i: "i < length (planes d)" by simp
    with c have
      "case plane_layer (planes d ! i) of None \<Rightarrow> True
       | Some r' \<Rightarrow> valid_layer d r' \<and> layer_plane (get_layer d r') = Some i"
      by (simp add: pairing_consistent_def)
    with j r show
      "case plane_layer (planes ?d ! i) of None \<Rightarrow> True
       | Some r' \<Rightarrow> valid_layer ?d r' \<and> layer_plane (get_layer ?d r') = Some i"
      by (auto simp: plane_layer_set_plane_layer layer_plane_set_layer_plane split: option.splits)
  qed
  moreover have "layer_refs_ok ?d"
    unfolding layer_refs_ok_def
  proof (intro allI impI)
    fix oi li
    assume "oi < length (outputs ?d)" "li < length (layers (outputs ?d ! oi))"
    then have v: "valid_layer d (oi, li)" by (simp add: valid_layer_def)
    with c have
      "case layer_plane (get_layer d (oi, li)) of None \<Rightarrow> True
       | Some i \<Rightarrow> i < length (planes d) \<and> plane_layer (planes d ! i) = Some (oi, li)"
      by (simp add: pairing_consistent_def valid_layer_def)
    with j r v show
      "case layer_plane (get_layer ?d (oi, li)) of None \<Rightarrow> True
       | Some i \<Rightarrow> i < length (planes ?d) \<and> plane_layer (planes ?d ! i) = Some (oi, li)"
      by (auto simp: plane_layer_set_plane_layer layer_plane_set_layer_plane split: option.splits)
  qed
  ultimately show ?thesis by (simp add: pairing_consistent_iff)
qed

lemma choose_loop_display:
  assumes "choose_loop k d r c i ps w = Inr (ok, d', w')" "ps = drop i (planes d)"
  shows "d' = d \<or>
         (ok \<and> (\<exists>j<length (planes d). plane_layer (planes d ! j) = None \<and>
                  d' = set_plane_layer (set_layer_plane d r (Some j)) j (Some r)))"
  using assms
proof (induction ps arbitrary: i w)
  case Nil
  then show ?case by simp
next
  case (Cons plane ps)
  from Cons.prems(2) have i: "i < length (planes d)"
    by (metis drop_eq_Nil list.distinct(1) not_less)
  with Cons.prems(2) have p: "plane = planes d ! i" and ps: "ps = drop (Suc i) (planes d)"
    by (simp_all add: Cons_nth_drop_Suc[symmetric])
  show ?case
  proof (cases "plane_layer plane = None")
    case False
    with Cons.prems(1) have "choose_loop k d r c (Suc i) ps w = Inr (ok, d', w')" by simp
    from Cons.IH[OF this ps] show ?thesis .
  next
    case True
    show ?thesis
    proof (cases "plane_apply k d plane (Some r) (fprintf w (Trying_to_apply r (plane_id plane)))")
      case (Inl e)
      with Cons.prems(1) True show ?thesis by simp
    next
      case (Inr res)
      obtain ok1 w1 where res: "res = (ok1, w1)" by (cases res)
      show ?thesis
      proof (cases ok1)
        case False
        with Cons.prems(1) True Inr res show ?thesis by simp
      next
        case ok1: True
        consider (acc) "drmModeAtomicCommit k (req w1) = 0"
          | (fatal) "drmModeAtomicCommit k (req w1) \<noteq> 0"
              "- drmModeAtomicCommit k (req w1) \<noteq> EINVAL \<and> - drmModeAtomicCommit k (req w1) \<noteq> ERANGE"
          | (rej) "drmModeAtomicCommit k (req w1) \<noteq> 0"
              "\<not> (- drmModeAtomicCommit k (req w1) \<noteq> EINVAL \<and> - drmModeAtomicCommit k (req w1) \<noteq> ERANGE)"
          by blast
        then show ?thesis
        proof cases
          case acc
          with Cons.prems(1) True Inr res ok1 i p show ?thesis by (auto simp: Let_def)
        next
          case fatal
          with Cons.prems(1) True Inr res ok1 show ?thesis by (auto simp: Let_def)
        next
          case rej
          with Cons.prems(1) True Inr res ok1 have
            "choose_loop k d r c (Suc i) ps
               ((fprintf w1 Failure)\<lparr>req := drmModeAtomicSetCursor (req w1) c\<rparr>) = Inr (ok, d', w')"
            by (auto simp: Let_def)
          from Cons.IH[OF this ps] show ?thesis .
        qed
      qed
    qed
  qed
qed

lemma layer_choose_plane_display:
  assumes "layer_choose_plane k d r w = Inr (ok, d', w')"
  shows "d' = d \<or>
         (ok \<and> (\<exists>j<length (planes d). plane_layer (planes d ! j) = None \<and>
                  d' = set_plane_layer (set_layer_plane d r (Some j)) j (Some r)))"
  using assms choose_loop_display[of k d r _ 0 "planes d" w ok d' w']
  by (simp add: layer_choose_plane_def)

lemma layer_choose_plane_unpaired:
  "layer_choose_plane k d r w = Inr (ok, d', w') \<Longrightarrow> unpaired d' = unpaired d"
  by (drule layer_choose_plane_display) auto

lemma layer_choose_plane_consistent:
  assumes "layer_choose_plane k d r w = Inr (ok, d', w')" "pairing_consistent d"
    "valid_layer d r" "layer_plane (get_layer d r) = None"
  shows "pairing_consistent d'"
  using layer_choose_plane_display[OF assms(1)]
proof (elim disjE conjE exE)
  assume "d' = d"
  with assms(2) show ?thesis by simp
next
  fix j
  assume "j < length (planes d)" "plane_layer (planes d ! j) = None"
    "d' = set_plane_layer (set_layer_plane d r (Some j)) j (Some r)"
  with pair_consistent[OF assms(2) _ _ assms(3,4)] show ?thesis by simp
qed

lemma layer_choose_plane_other_layers:
  assumes "layer_choose_plane k d r w = Inr (ok, d', w')" "valid_layer d r'" "r' \<noteq> r"
  shows "layer_plane (get_layer d' r') = layer_plane (get_layer d r')"
  using layer_choose_plane_display[OF assms(1)] assms(2-)
  by (auto simp: layer_plane_set_layer_plane)

lemma layer_choose_plane_valid:
  assumes "layer_choose_plane k d r w = Inr (ok, d', w')"
  shows "valid_layer d' r' = valid_layer d r'"
  using layer_choose_plane_display[OF assms(1)] by auto

lemma layer_choose_plane_lengths:
  assumes "layer_choose_plane k d r w = Inr (ok, d', w')"
  shows "length (outputs d') = length (outputs d)"
    and "length (layers (outputs d' ! oi)) = length (layers (outputs d ! oi))"
    and "length (planes d') = length (planes d)"
  using layer_choose_plane_display[OF assms(1)] by auto

lemma choose_layers_consistent:
  assumes "choose_layers k d oi lis w = Inr (ok, d', w')" "pairing_consistent d" "distinct lis"
    "\<forall>li\<in>set lis. valid_layer d (oi, li) \<and> layer_plane (get_layer d (oi, li)) = None"
  shows "pairing_consistent d'"
  using assms
proof (induction lis arbitrary: d w)
  case Nil
  then show ?case by simp
next
  case (Cons li lis)
  show ?case
  proof (cases "layer_choose_plane k d (oi, li) w")
    case (Inl e)
    with Cons.prems(1) show ?thesis by simp
  next
    case (Inr res)
    obtain ok1 d1 w1 where res: "res = (ok1, d1, w1)" by (cases res)
    note l = Inr[unfolded res]
    from Cons.prems have c1: "pairing_consistent d1"
      by (intro layer_choose_plane_consistent[OF l]) auto
    show ?thesis
    proof (cases ok1)
      case False
      with Cons.prems(1) l c1 show ?thesis by simp
    next
      case True
      with Cons.prems(1) l have rec: "choose_layers k d1 oi lis w1 = Inr (ok, d', w')" by simp
      have "\<forall>li'\<in>set lis. valid_layer d1 (oi, li') \<and> layer_plane (get_layer d1 (oi, li')) = None"
      proof
        fix li' assume m: "li' \<in> set lis"
        with Cons.prems(3) have ne: "(oi, li') \<noteq> (oi, li)" by auto
        from m Cons.prems(4) have v: "valid_layer d (oi, li')"
          and n: "layer_plane (get_layer d (oi, li')) = None" by simp_all
        from layer_choose_plane_other_layers[OF l v ne] n layer_choose_plane_valid[OF l] v
        show "valid_layer d1 (oi, li') \<and> layer_plane (get_layer d1 (oi, li')) = None" by simp
      qed
      with Cons.IH[OF rec c1] Cons.prems(3) show ?thesis by simp
    qed
  qed
qed

lemma choose_layers_unpaired:
  "choose_layers k d oi lis w = Inr (ok, d', w') \<Longrightarrow> unpaired d' = unpaired d"
proof (induction lis arbitrary: d w)
  case Nil
  then show ?case by simp
next
  case (Cons li lis)
  then show ?case
    by (auto split: sum.splits bool.splits dest!: layer_choose_plane_unpaired)
qed

lemma choose_layers_other_outputs:
  assumes "choose_layers k d oi lis w = Inr (ok, d', w')" "valid_layer d r'" "fst r' \<noteq> oi"
  shows "layer_plane (get_layer d' r') = layer_plane (get_layer d r')"
  using assms
proof (induction lis arbitrary: d w)
  case Nil
  then show ?case by simp
next
  case (Cons li lis)
  show ?case
  proof (cases "layer_choose_plane k d (oi, li) w")
    case (Inl e)
    with Cons.prems(1) show ?thesis by simp
  next
    case (Inr res)
    obtain ok1 d1 w1 where res: "res = (ok1, d1, w1)" by (cases res)
    note l = Inr[unfolded res]
    from Cons.prems(3) have "r' \<noteq> (oi, li)" by auto
    from layer_choose_plane_other_layers[OF l Cons.prems(2) this]
    have e: "layer_plane (get_layer d1 r') = layer_plane (get_layer d r')" .
    show ?thesis
    proof (cases ok1)
      case False
      with Cons.prems(1) l e show ?thesis by simp
    next
      case True
      with Cons.prems(1) l have rec: "choose_layers k d1 oi lis w1 = Inr (ok, d', w')" by simp
      from Cons.IH[OF rec _ Cons.prems(3)] layer_choose_plane_valid[OF l] Cons.prems(2) e
      show ?thesis by simp
    qed
  qed
qed

lemma planes_unpaired: "planes (unpaired d) = map (\<lambda>p. p\<lparr>plane_layer := None\<rparr>) (planes d)"
  by (simp add: unpaired_def)

lemma outputs_unpaired:
  "outputs (unpaired d) =
     map (\<lambda>out. out\<lparr>layers := map (\<lambda>l. l\<lparr>layer_plane := None\<rparr>) (layers out)\<rparr>) (outputs d)"
  by (simp add: unpaired_def)

lemma unpaired_eq_lengths:
  assumes "unpaired d' = unpaired d"
  shows "length (planes d') = length (planes d)" "length (outputs d') = length (outputs d)"
    "oi < length (outputs d) \<Longrightarrow> length (layers (outputs d' ! oi)) = length (layers (outputs d ! oi))"
proof -
  have "length (planes d') = length (planes (unpaired d'))" by (simp add: planes_unpaired)
  also have "\<dots> = length (planes d)" by (simp add: assms planes_unpaired)
  finally show "length (planes d') = length (planes d)" .
  have "length (outputs d') = length (outputs (unpaired d'))" by (simp add: outputs_unpaired)
  also have "\<dots> = length (outputs d)" by (simp add: assms outputs_unpaired)
  finally show lo: "length (outputs d') = length (outputs d)" .
  assume oi: "oi < length (outputs d)"
  with lo have "length (layers (outputs d' ! oi)) = length (layers (outputs (unpaired d') ! oi))"
    by (simp add: outputs_unpaired)
  also from oi have "\<dots> = length (layers (outputs d ! oi))"
    by (simp add: assms outputs_unpaired)
  finally show "length (layers (outputs d' ! oi)) = length (layers (outputs d ! oi))" .
qed

lemma choose_outputs_unpaired:
  "choose_outputs k d ois w = Inr (ok, d', w') \<Longrightarrow> unpaired d' = unpaired d"
proof (induction ois arbitrary: d w)
  case Nil
  then show ?case by simp
next
  case (Cons oi ois)
  then show ?case
    by (auto split: sum.splits bool.splits dest!: choose_layers_unpaired)
qed

lemma unpaired_eq_valid:
  assumes "unpaired d' = unpaired d"
  shows "valid_layer d' r = valid_layer d r"
  using unpaired_eq_lengths[OF assms] by (auto simp: valid_layer_def)

lemma choose_outputs_consistent:
  assumes "choose_outputs k d ois w = Inr (ok, d', w')" "pairing_consistent d" "distinct ois"
    "\<forall>oi\<in>set ois. oi < length (outputs d) \<and>
       (\<forall>li<length (layers (outputs d ! oi)). layer_plane (get_layer d (oi, li)) = None)"
  shows "pairing_consistent d'"
  using assms
proof (induction ois arbitrary: d w)
  case Nil
  then show ?case by simp
next
  case (Cons oi ois)
  let ?lis = "[0..<length (layers (outputs d ! oi))]"
  show ?case
  proof (cases "choose_layers k d oi ?lis w")
    case (Inl e)
    with Cons.prems(1) show ?thesis by simp
  next
    case (Inr res)
    obtain ok1 d1 w1 where res: "res = (ok1, d1, w1)" by (cases res)
    note l = Inr[unfolded res]
    from Cons.prems(4) have
      "\<forall>li\<in>set ?lis. valid_layer d (oi, li) \<and> layer_plane (get_layer d (oi, li)) = None"
      by (simp add: valid_layer_def)
    from choose_layers_consistent[OF l Cons.prems(2) _ this]
    have c1: "pairing_consistent d1" by simp
    note u = choose_layers_unpaired[OF l]
    show ?thesis
    proof (cases ok1)
      case False
      with Cons.prems(1) l c1 show ?thesis by simp
    next
      case True
      with Cons.prems(1) l have rec: "choose_outputs k d1 ois w1 = Inr (ok, d', w')" by simp
      have "\<forall>oi'\<in>set ois. oi' < length (outputs d1) \<and>
         (\<forall>li<length (layers (outputs d1 ! oi')). layer_plane (get_layer d1 (oi', li)) = None)"
      proof (intro ballI conjI allI impI)
        fix oi' assume m: "oi' \<in> set ois"
        with Cons.prems(4) have lt: "oi' < length (outputs d)" by simp
        with unpaired_eq_lengths(2)[OF u] show "oi' < length (outputs d1)" by simp
        fix li assume "li < length (layers (outputs d1 ! oi'))"
        with unpaired_eq_lengths(3)[OF u lt] have li: "li < length (layers (outputs d ! oi'))"
          by simp
        with lt have v: "valid_layer d (oi', li)" by (simp add: valid_layer_def)
        from m Cons.prems(3) have "fst (oi', li) \<noteq> oi" by auto
        from choose_layers_other_outputs[OF l v this] Cons.prems(4) m li
        show "layer_plane (get_layer d1 (oi', li)) = None" by simp
      qed
      with Cons.IH[OF rec c1] Cons.prems(3) show ?thesis by simp
    qed
  qed
qed

lemma plane_layer_unpaired:
  "i < length (planes d) \<Longrightarrow> plane_layer (planes (unpaired d) ! i) = None"
  by (simp add: planes_unpaired)

lemma layer_plane_unpaired:
  "valid_layer d r \<Longrightarrow> layer_plane (get_layer (unpaired d) r) = None"
  by (simp add: outputs_unpaired get_layer_def valid_layer_def)

lemma length_unpaired [simp]:
  "length (planes (unpaired d)) = length (planes d)"
  "length (outputs (unpaired d)) = length (outputs d)"
  by (simp_all add: planes_unpaired outputs_unpaired)

lemma length_layers_unpaired:
  "oi < length (outputs d) \<Longrightarrow>
     length (layers (outputs (unpaired d) ! oi)) = length (layers (outputs d ! oi))"
  by (simp add: outputs_unpaired)

lemma pairing_consistent_unpaired: "pairing_consistent (unpaired d)"
  by (simp add: pairing_consistent_def plane_layer_unpaired layer_plane_unpaired
      length_layers_unpaired valid_layer_def)

lemma hwc_display_apply_consistent:
  assumes "hwc_display_apply k d w = Inr (ok, d', w')" "pairing_consistent d"
  shows "pairing_consistent d'"
proof -
  from assms(2) have u: "unset_mappings d = unpaired d"
    by (simp add: unset_mappings_unpaired pairing_consistent_iff)
  show ?thesis
  proof (cases "disable_planes k (unpaired d) (planes (unpaired d)) w")
    case (Inl e)
    with assms(1) u show ?thesis by (simp add: hwc_display_apply_def)
  next
    case (Inr res)
    obtain ok1 w1 where res: "res = (ok1, w1)" by (cases res)
    show ?thesis
    proof (cases ok1)
      case False
      with assms(1) u Inr res have "d' = unpaired d" by (simp add: hwc_display_apply_def)
      then show ?thesis by (simp add: pairing_consistent_unpaired)
    next
      case True
      with assms(1) u Inr res have
        c: "choose_outputs k (unpaired d) [0..<length (outputs (unpaired d))] w1 = Inr (ok, d', w')"
        by (simp add: hwc_display_apply_def)
      have "\<forall>oi\<in>set [0..<length (outputs (unpaired d))]. oi < length (outputs (unpaired d)) \<and>
         (\<forall>li<length (layers (outputs (unpaired d) ! oi)).
            layer_plane (get_layer (unpaired d) (oi, li)) = None)"
        by (simp add: layer_plane_unpaired length_layers_unpaired valid_layer_def)
      from choose_outputs_consistent[OF c pairing_consistent_unpaired _ this]
      show ?thesis by simp
    qed
  qed
qed

lemma hwc_display_apply_unpaired:
  assumes "hwc_display_apply k d w = Inr (ok, d', w')"
  shows "unpaired d' = unpaired d"
proof (cases "disable_planes k (unset_mappings d) (planes (unset_mappings d)) w")
  case (Inl e)
  with assms show ?thesis by (simp add: hwc_display_apply_def)
next
  case (Inr res)
  obtain ok1 w1 where res: "res = (ok1, w1)" by (cases res)
  show ?thesis
  proof (cases ok1)
    case False
    with assms Inr res have "d' = unset_mappings d" by (simp add: hwc_display_apply_def)
    then show ?thesis by simp
  next
    case True
    with assms Inr res have
      "choose_outputs k (unset_mappings d) [0..<length (outputs (unset_mappings d))] w1
         = Inr (ok, d', w')"
      by (simp add: hwc_display_apply_def Let_def)
    from choose_outputs_unpaired[OF this] show ?thesis by simp
  qed
qed

lemma pairing_consistent_planeD:
  assumes "pairing_consistent d" "i < length (planes d)" "plane_layer (planes d ! i) = Some r"
  shows "valid_layer d r \<and> layer_plane (get_layer d r) = Some i"
proof -
  from assms(1,2) have
    "case plane_layer (planes d ! i) of None \<Rightarrow> True
     | Some r \<Rightarrow> valid_layer d r \<and> layer_plane (get_layer d r) = Some i"
    by (simp add: pairing_consistent_def)
  with assms(3) show ?thesis by simp
qed

lemma pairing_consistent_layerD:
  assumes "pairing_consistent d" "valid_layer d r" "layer_plane (get_layer d r) = Some i"
  shows "i < length (planes d) \<and> plane_layer (planes d ! i) = Some r"
proof -
  obtain oi li where r: "r = (oi, li)" by (cases r)
  from assms(1) have "layer_refs_ok d" by (simp add: pairing_consistent_iff)
  with assms(2) have
    "case layer_plane (get_layer d (oi, li)) of None \<Rightarrow> True
     | Some i \<Rightarrow> i < length (planes d) \<and> plane_layer (planes d ! i) = Some (oi, li)"
    unfolding layer_refs_ok_def r valid_layer_def by simp
  with assms(3) r show ?thesis by simp
qed

text \<open>
  Claim C4. A pass that starts from consistent pairing references and returns (with
  success, or with failure) leaves them consistent: every plane's layer reference is
  empty or names a layer whose plane reference names that plane, and the same from the
  layers' side. Hence no layer is named by two planes and no plane by two layers.
\<close>

theorem hwc_display_apply_pairing:
  assumes "pairing_consistent d" "hwc_display_apply k d w = Inr (ok, d', w')"
  shows "pairing_consistent d' \<and>
         (\<forall>i j r. i < length (planes d') \<and> j < length (planes d') \<and>
            plane_layer (planes d' ! i) = Some r \<and> plane_layer (planes d' ! j) = Some r
            \<longrightarrow> i = j) \<and>
         (\<forall>r r' i. valid_layer d' r \<and> valid_layer d' r' \<and>
            layer_plane (get_layer d' r) = Some i \<and> layer_plane (get_layer d' r') = Some i
            \<longrightarrow> r = r')"
proof -
  from hwc_display_apply_consistent[OF assms(2,1)] have c: "pairing_consistent d'" .
  have "i = j" if "i < length (planes d')" "j < length (planes d')"
    "plane_layer (planes d' ! i) = Some r" "plane_layer (planes d' ! j) = Some r" for i j r
  proof -
    from pairing_consistent_planeD[OF c that(1,3)] pairing_consistent_planeD[OF c that(2,4)]
    show ?thesis by simp
  qed
  moreover have "r = r'" if "valid_layer d' r" "valid_layer d' r'"
    "layer_plane (get_layer d' r) = Some i" "layer_plane (get_layer d' r') = Some i" for r r' i
  proof -
    from pairing_consistent_layerD[OF c that(1,3)] pairing_consistent_layerD[OF c that(2,4)]
    show ?thesis by simp
  qed
  ultimately show ?thesis using c by blast
qed

text \<open>
  Claim C10. The first loop of a pass, which cannot fail, empties every pairing reference
  of a display whose references are consistent. The pass as a whole, whatever it
  returns, is the pass run on the display with no pairing at all: a pairing in its
  result, also in the result of a failed pass, was made by this pass. In particular a
  pass that fails in the disable loop leaves no pairing.
\<close>

theorem hwc_display_apply_clears_first:
  assumes "pairing_consistent d"
  shows "unset_mappings d = unpaired d \<and>
         (\<forall>p\<in>set (planes (unpaired d)). plane_layer p = None) \<and>
         (\<forall>out\<in>set (outputs (unpaired d)). \<forall>l\<in>set (layers out). layer_plane l = None) \<and>
         hwc_display_apply k d w = hwc_display_apply k (unpaired d) w \<and>
         (\<forall>w1. disable_planes k (unpaired d) (planes (unpaired d)) w = Inr (False, w1) \<longrightarrow>
               hwc_display_apply k d w = Inr (False, unpaired d, w1))"
proof -
  from assms have u: "unset_mappings d = unpaired d"
    by (simp add: unset_mappings_unpaired pairing_consistent_iff)
  have "unset_mappings (unpaired d) = unpaired d"
    using pairing_consistent_unpaired[of d]
    by (simp add: unset_mappings_unpaired pairing_consistent_iff)
  with u have "hwc_display_apply k d w = hwc_display_apply k (unpaired d) w"
    by (simp add: hwc_display_apply_def)
  moreover have "\<forall>p\<in>set (planes (unpaired d)). plane_layer p = None"
    by (auto simp: planes_unpaired)
  moreover have "\<forall>out\<in>set (outputs (unpaired d)). \<forall>l\<in>set (layers out). layer_plane l = None"
    by (auto simp: outputs_unpaired)
  moreover have "\<forall>w1. disable_planes k (unpaired d) (planes (unpaired d)) w = Inr (False, w1) \<longrightarrow>
               hwc_display_apply k d w = Inr (False, unpaired d, w1)"
    using u by (simp add: hwc_display_apply_def)
  ultimately show ?thesis using u by blast
qed

subsection \<open>The concrete display\<close>

lemma display0_consistent: "pairing_consistent display0"
  by (simp add: pairing_consistent_def display0_def plane_of_def layer_of_def valid_layer_def
      get_layer_def All_less_Suc)

lemma display1_consistent: "pairing_consistent display1"
  by (simp add: pairing_consistent_def display1_def plane_of_def layer_of_def valid_layer_def
      get_layer_def All_less_Suc)

lemma apply_display0: "hwc_display_apply drm0 display0 world0 = Inr (True, display1, world1)"
  by (simp add: model_defs example_defs)

lemma apply_display1: "hwc_display_apply drm0 display1 world0 = Inr (True, display1, world1)"
  by (simp add: model_defs example_defs)

theorem hwc_display_apply_pairing_witness:
  "pairing_consistent display0 \<and>
   hwc_display_apply drm0 display0 world0 = Inr (True, display1, world1) \<and>
   pairing_consistent display1"
  using hwc_display_apply_pairing[OF display0_consistent apply_display0]
    display0_consistent apply_display0 by blast

theorem hwc_display_apply_clears_first_witness:
  "pairing_consistent display1 \<and> unset_mappings display1 = display0 \<and>
   hwc_display_apply drm0 display1 world0 = hwc_display_apply drm0 display0 world0 \<and>
   hwc_display_apply drm_no_memory display1 world0 =
     Inr (False, display0,
          \<lparr>req = [],
           stderr = [Disabling_plane 10, Setting ''FB_ID'' 0,
                     Perror ''drmModeAtomicAddProperty'']\<rparr>)"
proof -
  let ?w1 = "\<lparr>req = [],
              stderr = [Disabling_plane 10, Setting ''FB_ID'' 0,
                        Perror ''drmModeAtomicAddProperty'']\<rparr>"
  have u: "unpaired display1 = display0"
    by (simp add: unpaired_def display1_def display0_def plane_of_def layer_of_def)
  have f: "disable_planes drm_no_memory display0 (planes display0) world0 = Inr (False, ?w1)"
    by (simp add: model_defs example_defs)
  note t1 = hwc_display_apply_clears_first[OF display1_consistent, of drm0 world0, unfolded u]
  note t2 = hwc_display_apply_clears_first[OF display1_consistent, of drm_no_memory world0,
      unfolded u]
  from t2 f have "hwc_display_apply drm_no_memory display1 world0 = Inr (False, display0, ?w1)"
    by blast
  with t1 display1_consistent show ?thesis by blast
qed
section \<open>What a pass prints and appends: the steps\<close>

lemma extends_refl: "extends dis w True w"
  by (simp add: extends_def good_log_def)

lemma extends_trans:
  assumes "extends dis w True w1" "extends dis w1 ok w2"
  shows "extends dis w ok w2"
proof -
  from assms(1) obtain ws1 out1 where
    1: "req w1 = req w @ ws1" "stderr w1 = stderr w @ out1" "\<forall>m\<in>set out1. \<not> fatal m"
       "dis \<or> (\<forall>m\<in>set out1. \<not> disabling m)"
    by (auto simp: extends_def good_log_def)
  from assms(2) obtain ws2 out2 where
    2: "req w2 = req w1 @ ws2" "stderr w2 = stderr w1 @ out2" "good_log ok out2"
       "dis \<or> (\<forall>m\<in>set out2. \<not> disabling m)"
    by (auto simp: extends_def)
  have "good_log ok (out1 @ out2)"
  proof (cases ok)
    case True
    with 1(3) 2(3) show ?thesis by (auto simp: good_log_def)
  next
    case False
    with 2(3) obtain pre m where "out2 = pre @ [m]" "fatal m" "\<forall>x\<in>set pre. \<not> fatal x"
      by (auto simp: good_log_def)
    with 1(3) False show ?thesis
      by (auto simp: good_log_def intro!: exI[of _ "out1 @ pre"] exI[of _ m])
  qed
  with 1 2 show ?thesis
    unfolding extends_def
    by (intro conjI exI[of _ "ws1 @ ws2"] exI[of _ "out1 @ out2"]) auto
qed

lemma extends_fprintf:
  "\<not> fatal m \<Longrightarrow> dis \<or> \<not> disabling m \<Longrightarrow> extends dis w True (fprintf w m)"
  by (auto simp: extends_def good_log_def fprintf_def)

lemma extends_fprintf_fatal:
  "fatal m \<Longrightarrow> extends dis w False (fprintf w m)"
  by (cases m) (auto simp: extends_def good_log_def fprintf_def)

lemma extends_weaken: "extends False w ok w' \<Longrightarrow> extends dis w ok w'"
  by (auto simp: extends_def)

lemma extends_rollback:
  assumes "extends dis w True w1"
  shows "extends dis w True ((fprintf w1 Failure)\<lparr>req := drmModeAtomicSetCursor (req w1) (length (req w))\<rparr>)"
    and "req ((fprintf w1 Failure)\<lparr>req := drmModeAtomicSetCursor (req w1) (length (req w))\<rparr>) = req w"
proof -
  from assms obtain ws where "req w1 = req w @ ws" by (auto simp: extends_def)
  then show r: "req ((fprintf w1 Failure)\<lparr>req := drmModeAtomicSetCursor (req w1) (length (req w))\<rparr>) = req w"
    by (simp add: drmModeAtomicSetCursor_def)
  from assms obtain out where "stderr w1 = stderr w @ out" "\<forall>m\<in>set out. \<not> fatal m"
    "dis \<or> (\<forall>m\<in>set out. \<not> disabling m)"
    by (auto simp: extends_def good_log_def)
  with r show "extends dis w True ((fprintf w1 Failure)\<lparr>req := drmModeAtomicSetCursor (req w1) (length (req w))\<rparr>)"
    unfolding extends_def
    by (intro conjI exI[of _ "[]"] exI[of _ "out @ [Failure]"]) (auto simp: fprintf_def good_log_def)
qed

lemma plane_set_prop_extends:
  "plane_set_prop k plane w pp v = (ok, w') \<Longrightarrow> extends dis w ok w'"
  by (auto simp: plane_set_prop_def drmModeAtomicAddProperty_def fprintf_def Let_def extends_def
      good_log_def split: if_splits)

lemma apply_layer_props_extends:
  "apply_layer_props k plane lps w = (ok, w') \<Longrightarrow> extends dis w ok w'"
proof (induction lps arbitrary: w)
  case Nil
  then show ?case by (simp add: extends_refl)
next
  case (Cons lp lps)
  show ?case
  proof (cases "plane_get_property plane (lp_name lp)")
    case None
    with Cons.prems show ?thesis by (auto simp: extends_fprintf_fatal)
  next
    case (Some pp)
    obtain ok1 w1 where s: "plane_set_prop k plane w pp (lp_value lp) = (ok1, w1)"
      by (cases "plane_set_prop k plane w pp (lp_value lp)")
    show ?thesis
    proof (cases ok1)
      case False
      with Cons.prems Some s plane_set_prop_extends[OF s] show ?thesis by auto
    next
      case True
      with Cons.prems Some s have "apply_layer_props k plane lps w1 = (ok, w')" by simp
      from Cons.IH[OF this] plane_set_prop_extends[OF s] True show ?thesis
        by (auto intro: extends_trans)
    qed
  qed
qed

lemma plane_apply_extends:
  assumes "plane_apply k d plane l w = Inr (ok, w')"
  shows "extends dis w ok w'"
proof (cases l)
  case None
  with assms show ?thesis
    by (auto simp: plane_apply_def split: option.splits intro: plane_set_prop_extends)
next
  case (Some r)
  with assms obtain cp where cp: "plane_get_property plane ''CRTC_ID'' = Some cp"
    by (auto simp: plane_apply_def split: option.splits)
  obtain ok1 w1 where s: "plane_set_prop k plane w cp (ucast (crtc_id (outputs d ! fst r))) = (ok1, w1)"
    by (cases "plane_set_prop k plane w cp (ucast (crtc_id (outputs d ! fst r)))")
  show ?thesis
  proof (cases ok1)
    case False
    with assms Some cp s plane_set_prop_extends[OF s] show ?thesis
      by (auto simp: plane_apply_def)
  next
    case True
    with assms Some cp s have "apply_layer_props k plane (layer_props (get_layer d r)) w1 = (ok, w')"
      by (auto simp: plane_apply_def)
    from apply_layer_props_extends[OF this] plane_set_prop_extends[OF s] True show ?thesis
      by (auto intro: extends_trans)
  qed
qed

lemma choose_loop_extends:
  assumes "choose_loop k d r c i ps w = Inr (ok, d', w')" "c = length (req w)"
  shows "extends False w ok w'"
  using assms
proof (induction ps arbitrary: i w)
  case Nil
  then show ?case by (auto intro: extends_fprintf)
next
  case (Cons plane ps)
  show ?case
  proof (cases "plane_layer plane = None")
    case False
    with Cons.prems(1) have "choose_loop k d r c (Suc i) ps w = Inr (ok, d', w')" by simp
    from Cons.IH[OF this Cons.prems(2)] show ?thesis .
  next
    case True
    let ?w0 = "fprintf w (Trying_to_apply r (plane_id plane))"
    have e0: "extends False w True ?w0" by (simp add: extends_fprintf)
    show ?thesis
    proof (cases "plane_apply k d plane (Some r) ?w0")
      case (Inl e)
      with Cons.prems(1) True show ?thesis by simp
    next
      case (Inr res)
      obtain ok1 w1 where res: "res = (ok1, w1)" by (cases res)
      note pa = Inr[unfolded res]
      from plane_apply_extends[OF pa] have e1: "extends False ?w0 ok1 w1" .
      show ?thesis
      proof (cases ok1)
        case False
        with Cons.prems(1) True pa have "ok = False" "w' = w1" by simp_all
        with e0 e1 False show ?thesis by (auto intro: extends_trans)
      next
        case ok1: True
        with e0 e1 have e: "extends False w True w1" by (auto intro: extends_trans)
        consider (acc) "drmModeAtomicCommit k (req w1) = 0"
          | (fatal) "drmModeAtomicCommit k (req w1) \<noteq> 0"
              "- drmModeAtomicCommit k (req w1) \<noteq> EINVAL \<and> - drmModeAtomicCommit k (req w1) \<noteq> ERANGE"
          | (rej) "drmModeAtomicCommit k (req w1) \<noteq> 0"
              "\<not> (- drmModeAtomicCommit k (req w1) \<noteq> EINVAL \<and> - drmModeAtomicCommit k (req w1) \<noteq> ERANGE)"
          by blast
        then show ?thesis
        proof cases
          case acc
          with Cons.prems(1) True pa ok1 have "ok = True" "w' = fprintf w1 Success"
            by (simp_all add: Let_def)
          with e show ?thesis
            by (auto intro: extends_trans[OF _ extends_fprintf])
        next
          case fatal
          with Cons.prems(1) True pa ok1 have "ok = False"
            "w' = fprintf w1 (Perror ''drmModeAtomicCommit'')"
            by (simp_all add: Let_def)
          with e show ?thesis
            by (auto intro: extends_trans[OF _ extends_fprintf_fatal])
        next
          case rej
          let ?w2 = "(fprintf w1 Failure)\<lparr>req := drmModeAtomicSetCursor (req w1) c\<rparr>"
          from rej Cons.prems(1) True pa ok1 have
            rec: "choose_loop k d r c (Suc i) ps ?w2 = Inr (ok, d', w')"
            by (auto simp: Let_def)
          from extends_rollback[OF e] Cons.prems(2) have
            e2: "extends False w True ?w2" and r2: "req ?w2 = req w" by simp_all
          from Cons.IH[OF rec] r2 Cons.prems(2) have "extends False ?w2 ok w'" by simp
          with e2 show ?thesis by (rule extends_trans)
        qed
      qed
    qed
  qed
qed

lemma layer_choose_plane_extends:
  "layer_choose_plane k d r w = Inr (ok, d', w') \<Longrightarrow> extends False w ok w'"
  by (simp add: layer_choose_plane_def drmModeAtomicGetCursor_def choose_loop_extends)

lemma choose_layers_extends:
  "choose_layers k d oi lis w = Inr (ok, d', w') \<Longrightarrow> extends False w ok w'"
proof (induction lis arbitrary: d w)
  case Nil
  then show ?case by (simp add: extends_refl)
next
  case (Cons li lis)
  show ?case
  proof (cases "layer_choose_plane k d (oi, li) w")
    case (Inl e)
    with Cons.prems show ?thesis by simp
  next
    case (Inr res)
    obtain ok1 d1 w1 where res: "res = (ok1, d1, w1)" by (cases res)
    note l = Inr[unfolded res]
    from layer_choose_plane_extends[OF l] have e: "extends False w ok1 w1" .
    show ?thesis
    proof (cases ok1)
      case False
      with Cons.prems l e show ?thesis by simp
    next
      case True
      with Cons.prems l have "choose_layers k d1 oi lis w1 = Inr (ok, d', w')" by simp
      from Cons.IH[OF this] e True show ?thesis by (auto intro: extends_trans)
    qed
  qed
qed

lemma choose_outputs_extends:
  "choose_outputs k d ois w = Inr (ok, d', w') \<Longrightarrow> extends False w ok w'"
proof (induction ois arbitrary: d w)
  case Nil
  then show ?case by (simp add: extends_refl)
next
  case (Cons oi ois)
  show ?case
  proof (cases "choose_layers k d oi [0..<length (layers (outputs d ! oi))] w")
    case (Inl e)
    with Cons.prems show ?thesis by simp
  next
    case (Inr res)
    obtain ok1 d1 w1 where res: "res = (ok1, d1, w1)" by (cases res)
    note l = Inr[unfolded res]
    from choose_layers_extends[OF l] have e: "extends False w ok1 w1" .
    show ?thesis
    proof (cases ok1)
      case False
      with Cons.prems l e show ?thesis by simp
    next
      case True
      with Cons.prems l have "choose_outputs k d1 ois w1 = Inr (ok, d', w')" by simp
      from Cons.IH[OF this] e True show ?thesis by (auto intro: extends_trans)
    qed
  qed
qed

lemma disable_planes_extends:
  "disable_planes k d ps w = Inr (ok, w') \<Longrightarrow> extends True w ok w'"
proof (induction ps arbitrary: w)
  case Nil
  then show ?case by (simp add: extends_refl)
next
  case (Cons plane ps)
  show ?case
  proof (cases "plane_layer plane = None")
    case False
    with Cons show ?thesis by simp
  next
    case True
    let ?w0 = "fprintf w (Disabling_plane (plane_id plane))"
    have e0: "extends True w True ?w0" by (simp add: extends_fprintf)
    show ?thesis
    proof (cases "plane_apply k d plane None ?w0")
      case (Inl e)
      with Cons.prems True show ?thesis by simp
    next
      case (Inr res)
      obtain ok1 w1 where res: "res = (ok1, w1)" by (cases res)
      note pa = Inr[unfolded res]
      from plane_apply_extends[OF pa] have e1: "extends True ?w0 ok1 w1" .
      show ?thesis
      proof (cases ok1)
        case False
        with Cons.prems True pa have "ok = False" "w' = w1" by simp_all
        with e0 e1 False show ?thesis by (auto intro: extends_trans)
      next
        case ok1: True
        with Cons.prems True pa have "disable_planes k d ps w1 = Inr (ok, w')" by simp
        from Cons.IH[OF this] e0 e1 ok1 show ?thesis by (auto intro: extends_trans)
      qed
    qed
  qed
qed

lemma hwc_display_apply_extends:
  assumes "hwc_display_apply k d w = Inr (ok, d', w')"
  shows "extends True w ok w'"
proof (cases "disable_planes k (unset_mappings d) (planes (unset_mappings d)) w")
  case (Inl e)
  with assms show ?thesis by (simp add: hwc_display_apply_def)
next
  case (Inr res)
  obtain ok1 w1 where res: "res = (ok1, w1)" by (cases res)
  note dp = Inr[unfolded res]
  from disable_planes_extends[OF dp] have e: "extends True w ok1 w1" .
  show ?thesis
  proof (cases ok1)
    case False
    with assms dp e show ?thesis by (simp add: hwc_display_apply_def)
  next
    case True
    with assms dp have
      "choose_outputs k (unset_mappings d) [0..<length (outputs (unset_mappings d))] w1
         = Inr (ok, d', w')"
      by (simp add: hwc_display_apply_def Let_def)
    from choose_outputs_extends[OF this] e True show ?thesis
      by (auto intro: extends_trans extends_weaken)
  qed
qed

lemma extends_fatal_last:
  assumes "extends dis w ok w'" "fatal m" "m \<in> set (drop (length (stderr w)) (stderr w'))"
  shows "\<not> ok \<and> last (stderr w') = m \<and>
         (\<exists>pre. stderr w' = stderr w @ pre @ [m] \<and> (\<forall>x\<in>set pre. \<not> fatal x))"
proof -
  from assms(1) obtain out where o: "stderr w' = stderr w @ out" "good_log ok out"
    by (auto simp: extends_def)
  with assms(3) have m: "m \<in> set out" by simp
  with o(2) assms(2) have nok: "\<not> ok" by (auto simp: good_log_def)
  with o(2) obtain pre m' where p: "out = pre @ [m']" "fatal m'" "\<forall>x\<in>set pre. \<not> fatal x"
    by (auto simp: good_log_def)
  with m assms(2) have "m' = m" by auto
  with p o nok show ?thesis by auto
qed

lemma extends_failure_fatal:
  assumes "extends dis w False w'"
  shows "fatal (last (stderr w'))"
  using assms by (auto simp: extends_def good_log_def)

section \<open>The match phase: candidates, outcomes, failure\<close>


lemma choose_loop_all_rejected:
  assumes "c = length (req w)"
    and "\<forall>p\<in>set ps. plane_layer p = None \<longrightarrow>
           (\<forall>w0. req w0 = req w \<longrightarrow>
              (\<exists>w1. plane_apply k d p (Some r) w0 = Inr (True, w1) \<and>
                    drmModeAtomicCommit k (req w1) \<in> {- EINVAL, - ERANGE}))"
  shows "\<exists>w'. choose_loop k d r c i ps w = Inr (True, d, w') \<and> req w' = req w \<and>
              last (stderr w') = Failed_to_find_plane r"
  using assms
proof (induction ps arbitrary: i w)
  case Nil
  then show ?case by (simp add: fprintf_def)
next
  case (Cons plane ps)
  show ?case
  proof (cases "plane_layer plane = None")
    case False
    with Cons.IH[of w "Suc i"] Cons.prems show ?thesis by simp
  next
    case True
    let ?w0 = "fprintf w (Trying_to_apply r (plane_id plane))"
    have r0: "req ?w0 = req w" by (simp add: fprintf_def)
    with Cons.prems(2) True obtain w1 where
      pa: "plane_apply k d plane (Some r) ?w0 = Inr (True, w1)"
      and rej: "drmModeAtomicCommit k (req w1) \<in> {- EINVAL, - ERANGE}"
      by auto
    let ?w2 = "(fprintf w1 Failure)\<lparr>req := drmModeAtomicSetCursor (req w1) c\<rparr>"
    from extends_rollback(2)[OF plane_apply_extends[OF pa]] r0 Cons.prems(1)
    have r2: "req ?w2 = req w" by simp
    from rej have st: "drmModeAtomicCommit k (req w1) \<noteq> 0"
      "\<not> (- drmModeAtomicCommit k (req w1) \<noteq> EINVAL \<and> - drmModeAtomicCommit k (req w1) \<noteq> ERANGE)"
      by (auto simp: EINVAL_def ERANGE_def)
    with True pa have
      step: "choose_loop k d r c i (plane # ps) w = choose_loop k d r c (Suc i) ps ?w2"
      by (auto simp: Let_def)
    from Cons.IH[of ?w2 "Suc i"] r2 Cons.prems
    obtain w' where "choose_loop k d r c (Suc i) ps ?w2 = Inr (True, d, w')"
      "req w' = req w" "last (stderr w') = Failed_to_find_plane r"
      by auto
    with step show ?thesis by simp
  qed
qed

lemma choose_loop_first_accepted:
  assumes "c = length (req w)"
    and "\<forall>q\<in>set ps1. plane_layer q = None \<longrightarrow>
           (\<forall>w0. req w0 = req w \<longrightarrow>
              (\<exists>w1. plane_apply k d q (Some r) w0 = Inr (True, w1) \<and>
                    drmModeAtomicCommit k (req w1) \<in> {- EINVAL, - ERANGE}))"
    and "plane_layer p = None"
    and "\<forall>w0. req w0 = req w \<longrightarrow>
           (\<exists>w1. plane_apply k d p (Some r) w0 = Inr (True, w1) \<and>
                 drmModeAtomicCommit k (req w1) = 0)"
  shows "\<exists>w0 w1. req w0 = req w \<and> plane_apply k d p (Some r) w0 = Inr (True, w1) \<and>
           choose_loop k d r c i (ps1 @ p # ps2) w =
             Inr (True,
                  set_plane_layer (set_layer_plane d r (Some (i + length ps1))) (i + length ps1)
                    (Some r),
                  fprintf w1 Success)"
  using assms
proof (induction ps1 arbitrary: i w)
  case Nil
  let ?w0 = "fprintf w (Trying_to_apply r (plane_id p))"
  have r0: "req ?w0 = req w" by (simp add: fprintf_def)
  with Nil.prems(4) obtain w1 where
    pa: "plane_apply k d p (Some r) ?w0 = Inr (True, w1)"
    and acc: "drmModeAtomicCommit k (req w1) = 0"
    by auto
  with Nil.prems(3) r0 show ?case
    by (intro exI[of _ ?w0] exI[of _ w1]) (simp add: Let_def)
next
  case (Cons plane ps1)
  show ?case
  proof (cases "plane_layer plane = None")
    case False
    with Cons.IH[of w "Suc i"] Cons.prems show ?thesis by simp
  next
    case True
    let ?w0 = "fprintf w (Trying_to_apply r (plane_id plane))"
    have r0: "req ?w0 = req w" by (simp add: fprintf_def)
    with Cons.prems(2) True obtain w1 where
      pa: "plane_apply k d plane (Some r) ?w0 = Inr (True, w1)"
      and rej: "drmModeAtomicCommit k (req w1) \<in> {- EINVAL, - ERANGE}"
      by auto
    let ?w2 = "(fprintf w1 Failure)\<lparr>req := drmModeAtomicSetCursor (req w1) c\<rparr>"
    from extends_rollback(2)[OF plane_apply_extends[OF pa]] r0 Cons.prems(1)
    have r2: "req ?w2 = req w" by simp
    from rej have st: "drmModeAtomicCommit k (req w1) \<noteq> 0"
      "\<not> (- drmModeAtomicCommit k (req w1) \<noteq> EINVAL \<and> - drmModeAtomicCommit k (req w1) \<noteq> ERANGE)"
      by (auto simp: EINVAL_def ERANGE_def)
    with True pa have
      step: "choose_loop k d r c i ((plane # ps1) @ p # ps2) w
               = choose_loop k d r c (Suc i) (ps1 @ p # ps2) ?w2"
      by (auto simp: Let_def)
    from Cons.IH[of ?w2 "Suc i"] r2 Cons.prems
    obtain w0 w1' where "req w0 = req w" "plane_apply k d p (Some r) w0 = Inr (True, w1')"
      "choose_loop k d r c (Suc i) (ps1 @ p # ps2) ?w2 =
         Inr (True,
              set_plane_layer (set_layer_plane d r (Some (Suc i + length ps1))) (Suc i + length ps1)
                (Some r),
              fprintf w1' Success)"
      by auto
    with step show ?thesis by auto
  qed
qed


theorem missing_property_fails_pass_counterexample:
  "hwc_display_apply drm_accept display2 world0 = Inr (False, display2, world2)"
  by (simp add: model_defs example_defs)

lemma apply_display0_busy: "hwc_display_apply drm_busy display0 world0 = Inr (False, display0, world3)"
  by (simp add: model_defs example_defs)

text \<open>
  Claim C1, as amended. When the enable operation fails for a candidate plane in the match
  phase, \<open>layer_choose_plane\<close> returns failure at once and tries no further plane. A name
  of the layer's property set that the plane's table does not hold makes the enable
  operation fail with the missing-property message. A pass that prints that message
  returns failure, and the message is the last thing it prints.
\<close>

theorem enable_failure_is_fatal:
  "(plane_layer plane = None \<and>
    plane_apply k d plane (Some r) (fprintf w (Trying_to_apply r (plane_id plane))) = Inr (False, w1)
      \<longrightarrow> choose_loop k d r c i (plane # ps) w = Inr (False, d, w1)) \<and>
   (plane_get_property plane (lp_name lp) = None
      \<longrightarrow> apply_layer_props k plane (lp # lps) w =
            (False, fprintf w (Failed_to_find_property (lp_name lp)))) \<and>
   (hwc_display_apply k d0 w0 = Inr (ok, d', w') \<and>
    Failed_to_find_property n \<in> set (drop (length (stderr w0)) (stderr w'))
      \<longrightarrow> \<not> ok \<and> last (stderr w') = Failed_to_find_property n)"
proof (intro conjI impI)
  assume "hwc_display_apply k d0 w0 = Inr (ok, d', w') \<and>
    Failed_to_find_property n \<in> set (drop (length (stderr w0)) (stderr w'))"
  then have a: "hwc_display_apply k d0 w0 = Inr (ok, d', w')"
    and m: "Failed_to_find_property n \<in> set (drop (length (stderr w0)) (stderr w'))"
    by simp_all
  from extends_fatal_last[OF hwc_display_apply_extends[OF a] _ m]
  show "\<not> ok" "last (stderr w') = Failed_to_find_property n" by simp_all
qed simp_all

theorem enable_failure_is_fatal_witness:
  "plane_layer (plane_of 10) = None \<and>
   plane_apply drm_accept display2 (plane_of 10) (Some (0, 0))
     (fprintf \<lparr>req = [(10, 1, 0), (11, 1, 0)], stderr = []\<rparr> (Trying_to_apply (0, 0) 10)) =
     Inr (False, \<lparr>req = [(10, 1, 0), (11, 1, 0), (10, 2, 5)],
                  stderr = [Trying_to_apply (0, 0) 10, Setting ''CRTC_ID'' 5,
                            Failed_to_find_property ''alpha'']\<rparr>) \<and>
   choose_loop drm_accept display2 (0, 0) 2 0 (planes display2)
     \<lparr>req = [(10, 1, 0), (11, 1, 0)], stderr = []\<rparr> =
     Inr (False, display2, \<lparr>req = [(10, 1, 0), (11, 1, 0), (10, 2, 5)],
                  stderr = [Trying_to_apply (0, 0) 10, Setting ''CRTC_ID'' 5,
                            Failed_to_find_property ''alpha'']\<rparr>) \<and>
   plane_get_property (plane_of 10) ''alpha'' = None \<and>
   hwc_display_apply drm_accept display2 world0 = Inr (False, display2, world2) \<and>
   Failed_to_find_property ''alpha'' \<in> set (drop (length (stderr world0)) (stderr world2)) \<and>
   last (stderr world2) = Failed_to_find_property ''alpha''"
proof -
  let ?w = "\<lparr>req = [(10, 1, 0), (11, 1, 0)], stderr = []\<rparr>"
  let ?w1 = "\<lparr>req = [(10, 1, 0), (11, 1, 0), (10, 2, 5)],
              stderr = [Trying_to_apply (0, 0) 10, Setting ''CRTC_ID'' 5,
                        Failed_to_find_property ''alpha'']\<rparr>"
  let ?p11 = "(plane_of 11)\<lparr>plane_props := plane_props (plane_of 11) @ [\<lparr>pp_name = ''alpha'', pp_id = 3\<rparr>]\<rparr>"
  have a: "hwc_display_apply drm_accept display2 world0 = Inr (False, display2, world2)"
    by (simp add: model_defs example_defs)
  have m: "Failed_to_find_property ''alpha'' \<in> set (drop (length (stderr world0)) (stderr world2))"
    by (simp add: world0_def world2_def)
  have p: "plane_layer (plane_of 10) = None" "plane_get_property (plane_of 10) ''alpha'' = None"
    by (simp_all add: plane_of_def plane_get_property_def)
  have pa: "plane_apply drm_accept display2 (plane_of 10) (Some (0, 0))
      (fprintf ?w (Trying_to_apply (0, 0) (plane_id (plane_of 10)))) = Inr (False, ?w1)"
    by (simp add: model_defs example_defs)
  have ps: "planes display2 = plane_of 10 # [?p11]" "plane_id (plane_of 10) = 10"
    by (simp_all add: display2_def plane_of_def)
  from enable_failure_is_fatal[where k = drm_accept and d = display2 and plane = "plane_of 10"
      and r = "(0, 0)" and w = ?w and ?w1.0 = ?w1 and c = 2 and i = 0 and ps = "[?p11]"
      and lp = "\<lparr>lp_name = ''alpha'', lp_value = 7\<rparr>" and ?d0.0 = display2
      and ?w0.0 = world0 and ok = False and d' = display2 and w' = world2 and n = "''alpha''"]
    a m p pa ps
  show ?thesis by (simp del: choose_loop.simps)
qed

lemma pair_planes:
  assumes "i < length (planes d)"
  shows "length (planes (set_plane_layer (set_layer_plane d r (Some i)) i (Some r))) = length (planes d)"
    and "planes (set_plane_layer (set_layer_plane d r (Some i)) i (Some r)) ! i =
           (planes d ! i)\<lparr>plane_layer := Some r\<rparr>"
    and "\<forall>j<length (planes d). j \<noteq> i \<longrightarrow>
           planes (set_plane_layer (set_layer_plane d r (Some i)) i (Some r)) ! j = planes d ! j"
    and "drm_fd (set_plane_layer (set_layer_plane d r (Some i)) i (Some r)) = drm_fd d"
  using assms by (simp_all add: set_plane_layer_def set_layer_plane_def)

lemma pair_outputs:
  assumes "fst r < length (outputs d)" "snd r < length (layers (outputs d ! fst r))"
  shows "length (outputs (set_plane_layer (set_layer_plane d r (Some i)) i (Some r))) =
           length (outputs d)"
    and "layers (outputs (set_plane_layer (set_layer_plane d r (Some i)) i (Some r)) ! fst r) ! snd r =
           (layers (outputs d ! fst r) ! snd r)\<lparr>layer_plane := Some i\<rparr>"
    and "\<forall>oi<length (outputs d).
           crtc_id (outputs (set_plane_layer (set_layer_plane d r (Some i)) i (Some r)) ! oi) =
             crtc_id (outputs d ! oi) \<and>
           length (layers (outputs (set_plane_layer (set_layer_plane d r (Some i)) i (Some r)) ! oi)) =
             length (layers (outputs d ! oi)) \<and>
           (\<forall>li<length (layers (outputs d ! oi)). (oi, li) \<noteq> r \<longrightarrow>
              layers (outputs (set_plane_layer (set_layer_plane d r (Some i)) i (Some r)) ! oi) ! li =
                layers (outputs d ! oi) ! li)"
proof -
  let ?d' = "set_plane_layer (set_layer_plane d r (Some i)) i (Some r)"
  have o: "outputs ?d' = (outputs d)[fst r := (outputs d ! fst r)
          \<lparr>layers := (layers (outputs d ! fst r))[snd r :=
              (layers (outputs d ! fst r) ! snd r)\<lparr>layer_plane := Some i\<rparr>]\<rparr>]"
    by (simp add: set_plane_layer_def set_layer_plane_def get_layer_def)
  show "length (outputs ?d') = length (outputs d)" unfolding o by simp
  show "layers (outputs ?d' ! fst r) ! snd r =
           (layers (outputs d ! fst r) ! snd r)\<lparr>layer_plane := Some i\<rparr>"
    using assms unfolding o by simp
  show "\<forall>oi<length (outputs d).
           crtc_id (outputs ?d' ! oi) = crtc_id (outputs d ! oi) \<and>
           length (layers (outputs ?d' ! oi)) = length (layers (outputs d ! oi)) \<and>
           (\<forall>li<length (layers (outputs d ! oi)). (oi, li) \<noteq> r \<longrightarrow>
              layers (outputs ?d' ! oi) ! li = layers (outputs d ! oi) ! li)"
  proof (intro allI impI)
    fix oi assume oi: "oi < length (outputs d)"
    show "crtc_id (outputs ?d' ! oi) = crtc_id (outputs d ! oi) \<and>
           length (layers (outputs ?d' ! oi)) = length (layers (outputs d ! oi)) \<and>
           (\<forall>li<length (layers (outputs d ! oi)). (oi, li) \<noteq> r \<longrightarrow>
              layers (outputs ?d' ! oi) ! li = layers (outputs d ! oi) ! li)"
    proof (cases "oi = fst r")
      case False
      with oi show ?thesis unfolding o by simp
    next
      case True
      have "layers (outputs ?d' ! oi) ! li = layers (outputs d ! oi) ! li"
        if "li < length (layers (outputs d ! oi))" "(oi, li) \<noteq> r" for li
      proof -
        from that(2) True have "li \<noteq> snd r" by (cases r) auto
        with True oi that(1) show ?thesis unfolding o by simp
      qed
      with True oi show ?thesis unfolding o by simp
    qed
  qed
qed

text \<open>
  Claim C3. The loop of \<open>layer_choose_plane\<close> stands at the plane at position \<open>i\<close> of the
  display, which has no layer, for the layer \<open>r\<close>; \<open>w\<close> is the world before the candidate,
  \<open>c\<close> the cursor recorded for it, and \<open>w1\<close> the world after the candidate's enable writes
  were appended. The answer of the test decides.

  \<^item> On 0 the loop returns success without looking at the remaining planes, with the
    request as the candidate's writes left it and \<^verbatim>\<open>Success\<close> printed. In the display
    returned, the plane at position \<open>i\<close> has the layer \<open>r\<close> and the layer \<open>r\<close> has the plane
    \<open>i\<close>; nothing else of that plane or that layer has changed, and every other plane,
    layer and output is as before.
  \<^item> On \<^verbatim>\<open>-EINVAL\<close> or \<^verbatim>\<open>-ERANGE\<close> the loop goes on with the next plane, the display
    unchanged, \<^verbatim>\<open>Failure\<close> printed, and a request that is the request before the
    candidate, which is the part of the candidate's request up to the cursor.
  \<^item> On any other answer the loop returns failure with the display unchanged and the
    commit error printed.
  \<^item> A plane that has a layer is passed over: nothing is appended or printed for it.
  \<^item> When no plane is left the loop returns success with the display unchanged.
  \<^item> \<open>layer_choose_plane\<close> is this loop over the planes of the display from position 0,
    with the length of the request it is given as the cursor.
  \<^item> A pass that prints the commit error returns failure and prints nothing after it, so
    no further plane is tried for any layer.
\<close>

theorem test_outcome_cases:
  assumes "i < length (planes d)" and "planes d ! i = plane" and "plane_layer plane = None"
    and "fst r < length (outputs d)" and "snd r < length (layers (outputs d ! fst r))"
    and "plane_apply k d plane (Some r)
           (w\<lparr>stderr := stderr w @ [Trying_to_apply r (plane_id plane)]\<rparr>) = Inr (True, w1)"
    and "c = length (req w)"
  shows "(test_commit_ret k (req w1) = 0 \<longrightarrow>
            (\<exists>d'. choose_loop k d r c i (plane # ps) w =
                     Inr (True, d', w1\<lparr>stderr := stderr w1 @ [Success]\<rparr>) \<and>
                   plane_layer (planes d' ! i) = Some r \<and>
                   layer_plane (layers (outputs d' ! fst r) ! snd r) = Some i \<and>
                   planes d' ! i = plane\<lparr>plane_layer := Some r\<rparr> \<and>
                   layers (outputs d' ! fst r) ! snd r =
                     (layers (outputs d ! fst r) ! snd r)\<lparr>layer_plane := Some i\<rparr> \<and>
                   drm_fd d' = drm_fd d \<and>
                   length (planes d') = length (planes d) \<and>
                   length (outputs d') = length (outputs d) \<and>
                   (\<forall>j<length (planes d). j \<noteq> i \<longrightarrow> planes d' ! j = planes d ! j) \<and>
                   (\<forall>oi<length (outputs d).
                      crtc_id (outputs d' ! oi) = crtc_id (outputs d ! oi) \<and>
                      length (layers (outputs d' ! oi)) = length (layers (outputs d ! oi)) \<and>
                      (\<forall>li<length (layers (outputs d ! oi)). (oi, li) \<noteq> r \<longrightarrow>
                         layers (outputs d' ! oi) ! li = layers (outputs d ! oi) ! li)))) \<and>
         (test_commit_ret k (req w1) \<in> {- EINVAL, - ERANGE} \<longrightarrow>
            take (length (req w)) (req w1) = req w \<and>
            choose_loop k d r c i (plane # ps) w =
              choose_loop k d r c (Suc i) ps \<lparr>req = req w, stderr = stderr w1 @ [Failure]\<rparr>) \<and>
         (test_commit_ret k (req w1) \<notin> {0, - EINVAL, - ERANGE} \<longrightarrow>
            choose_loop k d r c i (plane # ps) w =
              Inr (False, d, w1\<lparr>stderr := stderr w1 @ [Perror ''drmModeAtomicCommit'']\<rparr>)) \<and>
         (\<forall>q w0. plane_layer q \<noteq> None \<longrightarrow>
            choose_loop k d r c i (q # ps) w0 = choose_loop k d r c (Suc i) ps w0) \<and>
         (\<forall>w0. choose_loop k d r c i [] w0 =
            Inr (True, d, w0\<lparr>stderr := stderr w0 @ [Failed_to_find_plane r]\<rparr>)) \<and>
         (\<forall>w0. layer_choose_plane k d r w0 =
            choose_loop k d r (length (req w0)) 0 (planes d) w0) \<and>
         (\<forall>d0 w0 ok d' w'.
            hwc_display_apply k d0 w0 = Inr (ok, d', w') \<and>
            Perror ''drmModeAtomicCommit'' \<in> set (drop (length (stderr w0)) (stderr w'))
            \<longrightarrow> \<not> ok \<and> last (stderr w') = Perror ''drmModeAtomicCommit'')"
proof -
  let ?w0 = "fprintf w (Trying_to_apply r (plane_id plane))"
  let ?d' = "set_plane_layer (set_layer_plane d r (Some i)) i (Some r)"
  from assms(6) have pa: "plane_apply k d plane (Some r) ?w0 = Inr (True, w1)"
    by (simp add: fprintf_def)
  have c1: "\<exists>d'. choose_loop k d r c i (plane # ps) w =
                     Inr (True, d', w1\<lparr>stderr := stderr w1 @ [Success]\<rparr>) \<and>
                   plane_layer (planes d' ! i) = Some r \<and>
                   layer_plane (layers (outputs d' ! fst r) ! snd r) = Some i \<and>
                   planes d' ! i = plane\<lparr>plane_layer := Some r\<rparr> \<and>
                   layers (outputs d' ! fst r) ! snd r =
                     (layers (outputs d ! fst r) ! snd r)\<lparr>layer_plane := Some i\<rparr> \<and>
                   drm_fd d' = drm_fd d \<and>
                   length (planes d') = length (planes d) \<and>
                   length (outputs d') = length (outputs d) \<and>
                   (\<forall>j<length (planes d). j \<noteq> i \<longrightarrow> planes d' ! j = planes d ! j) \<and>
                   (\<forall>oi<length (outputs d).
                      crtc_id (outputs d' ! oi) = crtc_id (outputs d ! oi) \<and>
                      length (layers (outputs d' ! oi)) = length (layers (outputs d ! oi)) \<and>
                      (\<forall>li<length (layers (outputs d ! oi)). (oi, li) \<noteq> r \<longrightarrow>
                         layers (outputs d' ! oi) ! li = layers (outputs d ! oi) ! li))"
    if t: "test_commit_ret k (req w1) = 0"
  proof -
    from t pa assms(3) have e: "choose_loop k d r c i (plane # ps) w =
        Inr (True, ?d', w1\<lparr>stderr := stderr w1 @ [Success]\<rparr>)"
      by (simp add: Let_def drmModeAtomicCommit_def fprintf_def)
    note P = pair_planes[OF assms(1), of r]
    note O = pair_outputs[OF assms(4) assms(5), of i]
    have a: "plane_layer (planes ?d' ! i) = Some r" unfolding P(2) by simp
    have b: "layer_plane (layers (outputs ?d' ! fst r) ! snd r) = Some i" unfolding O(2) by simp
    have p2: "planes ?d' ! i = plane\<lparr>plane_layer := Some r\<rparr>" using P(2) assms(2) by simp
    show ?thesis
      apply (rule exI[of _ ?d'])
      apply (intro conjI)
               apply (rule e)
              apply (rule a)
             apply (rule b)
            apply (rule p2)
           apply (rule O(2))
          apply (rule P(4))
         apply (rule P(1))
        apply (rule O(1))
       apply (rule P(3))
      apply (rule O(3))
      done
  qed
  have c2: "take (length (req w)) (req w1) = req w \<and>
            choose_loop k d r c i (plane # ps) w =
              choose_loop k d r c (Suc i) ps \<lparr>req = req w, stderr = stderr w1 @ [Failure]\<rparr>"
    if rej: "test_commit_ret k (req w1) \<in> {- EINVAL, - ERANGE}"
  proof -
    let ?w2 = "(fprintf w1 Failure)\<lparr>req := drmModeAtomicSetCursor (req w1) c\<rparr>"
    have r0: "req ?w0 = req w" by (simp add: fprintf_def)
    from extends_rollback(2)[OF plane_apply_extends[OF pa]] r0 assms(7)
    have r2: "req ?w2 = req w" by simp
    then have tk: "take (length (req w)) (req w1) = req w"
      using assms(7) by (simp add: fprintf_def drmModeAtomicSetCursor_def)
    have w2: "?w2 = \<lparr>req = req w, stderr = stderr w1 @ [Failure]\<rparr>"
      using r2 by (simp add: fprintf_def)
    from rej have "drmModeAtomicCommit k (req w1) \<noteq> 0"
      "\<not> (- drmModeAtomicCommit k (req w1) \<noteq> EINVAL \<and> - drmModeAtomicCommit k (req w1) \<noteq> ERANGE)"
      by (auto simp: EINVAL_def ERANGE_def drmModeAtomicCommit_def)
    with pa assms(3) have "choose_loop k d r c i (plane # ps) w = choose_loop k d r c (Suc i) ps ?w2"
      by (auto simp: Let_def)
    with w2 tk show ?thesis by simp
  qed
  have c3: "choose_loop k d r c i (plane # ps) w =
              Inr (False, d, w1\<lparr>stderr := stderr w1 @ [Perror ''drmModeAtomicCommit'']\<rparr>)"
    if "test_commit_ret k (req w1) \<notin> {0, - EINVAL, - ERANGE}"
  proof -
    from that have "drmModeAtomicCommit k (req w1) \<noteq> 0"
      "- drmModeAtomicCommit k (req w1) \<noteq> EINVAL \<and> - drmModeAtomicCommit k (req w1) \<noteq> ERANGE"
      by (auto simp: drmModeAtomicCommit_def)
    with pa assms(3) show ?thesis by (simp add: Let_def fprintf_def)
  qed
  have c4: "\<forall>q w0. plane_layer q \<noteq> None \<longrightarrow>
            choose_loop k d r c i (q # ps) w0 = choose_loop k d r c (Suc i) ps w0"
    by simp
  have c5: "\<forall>w0. choose_loop k d r c i [] w0 =
            Inr (True, d, w0\<lparr>stderr := stderr w0 @ [Failed_to_find_plane r]\<rparr>)"
    by (simp add: fprintf_def)
  have c7: "\<forall>w0. layer_choose_plane k d r w0 =
                 choose_loop k d r (length (req w0)) 0 (planes d) w0"
    by (simp add: layer_choose_plane_def drmModeAtomicGetCursor_def)
  have c6: "\<forall>d0 w0 ok d' w'.
            hwc_display_apply k d0 w0 = Inr (ok, d', w') \<and>
            Perror ''drmModeAtomicCommit'' \<in> set (drop (length (stderr w0)) (stderr w'))
            \<longrightarrow> \<not> ok \<and> last (stderr w') = Perror ''drmModeAtomicCommit''"
  proof (intro allI impI)
    fix d0 w0 ok d' w'
    assume "hwc_display_apply k d0 w0 = Inr (ok, d', w') \<and>
            Perror ''drmModeAtomicCommit'' \<in> set (drop (length (stderr w0)) (stderr w'))"
    then have a: "hwc_display_apply k d0 w0 = Inr (ok, d', w')"
      and m: "Perror ''drmModeAtomicCommit'' \<in> set (drop (length (stderr w0)) (stderr w'))"
      by simp_all
    from extends_fatal_last[OF hwc_display_apply_extends[OF a] _ m]
    show "\<not> ok \<and> last (stderr w') = Perror ''drmModeAtomicCommit''" by simp
  qed
  show ?thesis
    apply (intro conjI impI)
          apply (erule c1)
         apply (erule c2[THEN conjunct1])
        apply (erule c2[THEN conjunct2])
       apply (erule c3)
      apply (rule c4)
     apply (rule c5)
    apply (rule c7)
    apply (rule c6)
    done
qed


theorem test_outcome_cases_witness:
  "(\<exists>d'. choose_loop drm0 display0 (0, 0) 2 0 (planes display0)
            \<lparr>req = [(10, 1, 0), (11, 1, 0)], stderr = []\<rparr> =
          Inr (True, d',
               \<lparr>req = [(10, 1, 0), (11, 1, 0), (10, 2, 5), (10, 1, 100)],
                stderr = [Trying_to_apply (0, 0) 10, Setting ''CRTC_ID'' 5, Setting ''FB_ID'' 100,
                          Success]\<rparr>) \<and>
          plane_layer (planes d' ! 0) = Some (0, 0) \<and>
          layer_plane (layers (outputs d' ! 0) ! 0) = Some 0 \<and>
          planes d' ! 1 = plane_of 11 \<and>
          layers (outputs d' ! 0) ! 1 = layer_of 200) \<and>
   choose_loop drm0 display1 (0, 1) 4 0 (planes display1)
       \<lparr>req = [(10, 1, 0), (11, 1, 0), (10, 2, 5), (10, 1, 100)], stderr = []\<rparr> =
     Inr (True, display1,
          \<lparr>req = [(10, 1, 0), (11, 1, 0), (10, 2, 5), (10, 1, 100)],
           stderr = [Trying_to_apply (0, 1) 11, Setting ''CRTC_ID'' 5, Setting ''FB_ID'' 200,
                     Failure, Failed_to_find_plane (0, 1)]\<rparr>) \<and>
   choose_loop drm_busy display0 (0, 0) 2 0 (planes display0)
     \<lparr>req = [(10, 1, 0), (11, 1, 0)], stderr = []\<rparr> =
     Inr (False, display0,
          \<lparr>req = [(10, 1, 0), (11, 1, 0), (10, 2, 5), (10, 1, 100)],
           stderr = [Trying_to_apply (0, 0) 10, Setting ''CRTC_ID'' 5, Setting ''FB_ID'' 100,
                     Perror ''drmModeAtomicCommit'']\<rparr>) \<and>
   hwc_display_apply drm_busy display0 world0 = Inr (False, display0, world3) \<and>
   last (stderr world3) = Perror ''drmModeAtomicCommit''"
proof -
  let ?w = "\<lparr>req = [(10, 1, 0), (11, 1, 0)], stderr = []\<rparr> :: world"
  let ?w1 = "\<lparr>req = [(10, 1, 0), (11, 1, 0), (10, 2, 5), (10, 1, 100)],
              stderr = [Trying_to_apply (0, 0) 10, Setting ''CRTC_ID'' 5, Setting ''FB_ID'' 100]\<rparr> :: world"
  let ?v = "\<lparr>req = [(10, 1, 0), (11, 1, 0), (10, 2, 5), (10, 1, 100)], stderr = []\<rparr> :: world"
  let ?v1 = "\<lparr>req = [(10, 1, 0), (11, 1, 0), (10, 2, 5), (10, 1, 100), (11, 2, 5), (11, 1, 200)],
              stderr = [Trying_to_apply (0, 1) 11, Setting ''CRTC_ID'' 5, Setting ''FB_ID'' 200]\<rparr> :: world"
  have ps0: "planes display0 = plane_of 10 # [plane_of 11]"
    and ps1: "planes display1 = (plane_of 10)\<lparr>plane_layer := Some (0, 0)\<rparr> # [plane_of 11]"
    by (simp_all add: display0_def display1_def)
  have accepted: "\<exists>d'. choose_loop drm0 display0 (0, 0) 2 0 (planes display0) ?w =
          Inr (True, d',
               \<lparr>req = [(10, 1, 0), (11, 1, 0), (10, 2, 5), (10, 1, 100)],
                stderr = [Trying_to_apply (0, 0) 10, Setting ''CRTC_ID'' 5, Setting ''FB_ID'' 100,
                          Success]\<rparr>) \<and>
          plane_layer (planes d' ! 0) = Some (0, 0) \<and>
          layer_plane (layers (outputs d' ! 0) ! 0) = Some 0 \<and>
          planes d' ! 1 = plane_of 11 \<and>
          layers (outputs d' ! 0) ! 1 = layer_of 200"
  proof -
    have h: "0 < length (planes display0)" "planes display0 ! 0 = plane_of 10"
      "plane_layer (plane_of 10) = None"
      "fst (0::nat, 0::nat) < length (outputs display0)"
      "snd (0::nat, 0::nat) < length (layers (outputs display0 ! fst (0::nat, 0::nat)))"
      "plane_apply drm0 display0 (plane_of 10) (Some (0, 0))
         (?w\<lparr>stderr := stderr ?w @ [Trying_to_apply (0, 0) (plane_id (plane_of 10))]\<rparr>) =
         Inr (True, ?w1)"
      "2 = length (req ?w)"
      by (simp_all add: model_defs example_defs)
    have t: "test_commit_ret drm0 (req ?w1) = 0" by (simp add: drm0_def)
    have f: "length (planes display0) = 2" "planes display0 ! 1 = plane_of 11"
      "length (outputs display0) = 1" "length (layers (outputs display0 ! 0)) = 2"
      "layers (outputs display0 ! 0) ! 1 = layer_of 200"
      by (simp_all add: display0_def)
    from test_outcome_cases[OF h, of "[plane_of 11]"] t obtain d' where
      d': "choose_loop drm0 display0 (0, 0) 2 0 (plane_of 10 # [plane_of 11]) ?w =
             Inr (True, d', ?w1\<lparr>stderr := stderr ?w1 @ [Success]\<rparr>)"
        "plane_layer (planes d' ! 0) = Some (0, 0)"
        "layer_plane (layers (outputs d' ! fst (0::nat, 0::nat)) ! snd (0::nat, 0::nat)) = Some 0"
        "\<forall>j<length (planes display0). j \<noteq> 0 \<longrightarrow> planes d' ! j = planes display0 ! j"
        "\<forall>oi<length (outputs display0).
            crtc_id (outputs d' ! oi) = crtc_id (outputs display0 ! oi) \<and>
            length (layers (outputs d' ! oi)) = length (layers (outputs display0 ! oi)) \<and>
            (\<forall>li<length (layers (outputs display0 ! oi)). (oi, li) \<noteq> (0, 0) \<longrightarrow>
               layers (outputs d' ! oi) ! li = layers (outputs display0 ! oi) ! li)"
      by blast
    from d'(4) f have p1: "planes d' ! 1 = plane_of 11" by simp
    from d'(5) f have l1: "layers (outputs d' ! 0) ! 1 = layer_of 200" by simp
    from d'(1,2,3) p1 l1 ps0 show ?thesis by (simp del: choose_loop.simps)
  qed
  have rejected: "choose_loop drm0 display1 (0, 1) 4 0 (planes display1) ?v =
     Inr (True, display1,
          \<lparr>req = [(10, 1, 0), (11, 1, 0), (10, 2, 5), (10, 1, 100)],
           stderr = [Trying_to_apply (0, 1) 11, Setting ''CRTC_ID'' 5, Setting ''FB_ID'' 200,
                     Failure, Failed_to_find_plane (0, 1)]\<rparr>)"
  proof -
    have h: "1 < length (planes display1)" "planes display1 ! 1 = plane_of 11"
      "plane_layer (plane_of 11) = None"
      "fst (0::nat, 1::nat) < length (outputs display1)"
      "snd (0::nat, 1::nat) < length (layers (outputs display1 ! fst (0::nat, 1::nat)))"
      "plane_apply drm0 display1 (plane_of 11) (Some (0, 1))
         (?v\<lparr>stderr := stderr ?v @ [Trying_to_apply (0, 1) (plane_id (plane_of 11))]\<rparr>) =
         Inr (True, ?v1)"
      "4 = length (req ?v)"
      by (simp_all add: model_defs example_defs)
    have t: "test_commit_ret drm0 (req ?v1) \<in> {- EINVAL, - ERANGE}"
      by (simp add: drm0_def EINVAL_def)
    note T = test_outcome_cases[OF h, of "[]"]
    from T t have rb: "choose_loop drm0 display1 (0, 1) 4 1 (plane_of 11 # []) ?v =
        choose_loop drm0 display1 (0, 1) 4 (Suc 1) [] \<lparr>req = req ?v, stderr = stderr ?v1 @ [Failure]\<rparr>"
      by blast
    have s0: "choose_loop drm0 display1 (0, 1) 4 0 (planes display1) ?v =
        choose_loop drm0 display1 (0, 1) 4 1 [plane_of 11] ?v"
      by (simp add: ps1)
    from s0 rb show ?thesis by (simp add: fprintf_def)
  qed
  have fatal: "choose_loop drm_busy display0 (0, 0) 2 0 (planes display0) ?w =
     Inr (False, display0,
          \<lparr>req = [(10, 1, 0), (11, 1, 0), (10, 2, 5), (10, 1, 100)],
           stderr = [Trying_to_apply (0, 0) 10, Setting ''CRTC_ID'' 5, Setting ''FB_ID'' 100,
                     Perror ''drmModeAtomicCommit'']\<rparr>)"
    and pass: "hwc_display_apply drm_busy display0 world0 = Inr (False, display0, world3)"
    and lastm: "last (stderr world3) = Perror ''drmModeAtomicCommit''"
  proof -
    have h: "0 < length (planes display0)" "planes display0 ! 0 = plane_of 10"
      "plane_layer (plane_of 10) = None"
      "fst (0::nat, 0::nat) < length (outputs display0)"
      "snd (0::nat, 0::nat) < length (layers (outputs display0 ! fst (0::nat, 0::nat)))"
      "plane_apply drm_busy display0 (plane_of 10) (Some (0, 0))
         (?w\<lparr>stderr := stderr ?w @ [Trying_to_apply (0, 0) (plane_id (plane_of 10))]\<rparr>) =
         Inr (True, ?w1)"
      "2 = length (req ?w)"
      by (simp_all add: model_defs example_defs)
    have t: "test_commit_ret drm_busy (req ?w1) \<notin> {0, - EINVAL, - ERANGE}"
      by (simp add: drm_busy_def EINVAL_def ERANGE_def)
    show a: "hwc_display_apply drm_busy display0 world0 = Inr (False, display0, world3)"
      by (simp add: model_defs example_defs)
    have m: "Perror ''drmModeAtomicCommit'' \<in> set (drop (length (stderr world0)) (stderr world3))"
      by (simp add: world0_def world3_def)
    note T = test_outcome_cases[OF h, of "[plane_of 11]"]
    from T t have "choose_loop drm_busy display0 (0, 0) 2 0 (plane_of 10 # [plane_of 11]) ?w =
        Inr (False, display0, ?w1\<lparr>stderr := stderr ?w1 @ [Perror ''drmModeAtomicCommit'']\<rparr>)"
      by blast
    with ps0 show "choose_loop drm_busy display0 (0, 0) 2 0 (planes display0) ?w =
     Inr (False, display0,
          \<lparr>req = [(10, 1, 0), (11, 1, 0), (10, 2, 5), (10, 1, 100)],
           stderr = [Trying_to_apply (0, 0) 10, Setting ''CRTC_ID'' 5, Setting ''FB_ID'' 100,
                     Perror ''drmModeAtomicCommit'']\<rparr>)"
      by (simp del: choose_loop.simps)
    from T a m show "last (stderr world3) = Perror ''drmModeAtomicCommit''" by blast
  qed
  from accepted rejected fatal pass lastm show ?thesis by (intro conjI)
qed

lemma hwc_display_apply_failure_fatal:
  assumes "hwc_display_apply k d w = Inr (False, d', w')"
  shows "(\<exists>s. last (stderr w') = Perror s) \<or> (\<exists>n. last (stderr w') = Failed_to_find_property n)"
proof -
  from extends_failure_fatal[OF hwc_display_apply_extends[OF assms]]
  show ?thesis by (cases "last (stderr w')") simp_all
qed

text \<open>
  Claim C8. When every plane without a layer is rejected for a layer with \<^verbatim>\<open>-EINVAL\<close> or
  \<^verbatim>\<open>-ERANGE\<close> (also when there is no such plane), \<open>layer_choose_plane\<close> returns success,
  leaves the display and the request as they were, and the loop over the layers goes on
  with the next layer. A pass that returns failure has always ended on one of the
  give-up messages, never on the message that no plane was found.
\<close>

theorem no_plane_is_not_failure:
  assumes "\<forall>p\<in>set (planes d). plane_layer p = None \<longrightarrow>
             (\<forall>w0. req w0 = req w \<longrightarrow>
                (\<exists>w1. plane_apply k d p (Some (oi, li)) w0 = Inr (True, w1) \<and>
                      drmModeAtomicCommit k (req w1) \<in> {- EINVAL, - ERANGE}))"
  shows "(\<exists>w'. layer_choose_plane k d (oi, li) w = Inr (True, d, w') \<and> req w' = req w \<and>
               last (stderr w') = Failed_to_find_plane (oi, li) \<and>
               choose_layers k d oi (li # lis) w = choose_layers k d oi lis w') \<and>
         (\<forall>d0 w0 d' w'. hwc_display_apply k d0 w0 = Inr (False, d', w') \<longrightarrow>
            (\<exists>s. last (stderr w') = Perror s) \<or>
            (\<exists>n. last (stderr w') = Failed_to_find_property n))"
proof
  from choose_loop_all_rejected[OF refl assms, of 0]
  obtain w' where "layer_choose_plane k d (oi, li) w = Inr (True, d, w')" "req w' = req w"
    "last (stderr w') = Failed_to_find_plane (oi, li)"
    by (auto simp: layer_choose_plane_def drmModeAtomicGetCursor_def)
  then show "\<exists>w'. layer_choose_plane k d (oi, li) w = Inr (True, d, w') \<and> req w' = req w \<and>
               last (stderr w') = Failed_to_find_plane (oi, li) \<and>
               choose_layers k d oi (li # lis) w = choose_layers k d oi lis w'"
    by (intro exI[of _ w']) simp
next
  show "\<forall>d0 w0 d' w'. hwc_display_apply k d0 w0 = Inr (False, d', w') \<longrightarrow>
            (\<exists>s. last (stderr w') = Perror s) \<or>
            (\<exists>n. last (stderr w') = Failed_to_find_property n)"
    using hwc_display_apply_failure_fatal by blast
qed

theorem no_plane_is_not_failure_witness:
  "(\<exists>w'. layer_choose_plane drm0 display1 (0, 1)
            \<lparr>req = [(10, 1, 0), (11, 1, 0), (10, 2, 5), (10, 1, 100)], stderr = []\<rparr> =
            Inr (True, display1, w') \<and>
         req w' = [(10, 1, 0), (11, 1, 0), (10, 2, 5), (10, 1, 100)]) \<and>
   hwc_display_apply drm0 display0 world0 = Inr (True, display1, world1) \<and>
   layer_plane (get_layer display1 (0, 1)) = None"
proof -
  let ?w = "\<lparr>req = [(10, 1, 0), (11, 1, 0), (10, 2, 5), (10, 1, 100)], stderr = []\<rparr>"
  have h: "\<forall>p\<in>set (planes display1). plane_layer p = None \<longrightarrow>
      (\<forall>w0. req w0 = req ?w \<longrightarrow>
         (\<exists>w1. plane_apply drm0 display1 p (Some (0, 1)) w0 = Inr (True, w1) \<and>
               drmModeAtomicCommit drm0 (req w1) \<in> {- EINVAL, - ERANGE}))"
    by (simp add: model_defs example_defs)
  have l: "layer_plane (get_layer display1 (0, 1)) = None"
    by (simp add: display1_def get_layer_def layer_of_def)
  from no_plane_is_not_failure[OF h, of "[]"] l apply_display0
  show ?thesis by auto
qed


lemma get_property_name: "get_property ps n = Some p \<Longrightarrow> pp_name p = n"
  by (induction ps) (auto split: if_splits)

lemma plane_set_prop_True:
  "plane_set_prop k plane w pp v = (True, w') \<Longrightarrow>
     w' = \<lparr>req = req w @ [(plane_id plane, pp_id pp, v)],
           stderr = stderr w @ [Setting (pp_name pp) v]\<rparr>"
  by (auto simp: plane_set_prop_def drmModeAtomicAddProperty_def fprintf_def Let_def
      split: if_splits)

lemma planes_unset_mappings:
  "planes (unset_mappings d) = map (\<lambda>p. p\<lparr>plane_layer := None\<rparr>) (planes d)"
proof -
  have "planes (unset_mappings d) = map (\<lambda>p. p\<lparr>plane_layer := None\<rparr>) (planes (unset_mappings d))"
    using planes_unset_mappings_None[of _ d] by (intro map_idI[symmetric]) simp
  also have "\<dots> = planes (unpaired (unset_mappings d))" by (simp only: planes_unpaired)
  also have "\<dots> = map (\<lambda>p. p\<lparr>plane_layer := None\<rparr>) (planes d)"
    by (simp only: unpaired_unset_mappings planes_unpaired)
  finally show ?thesis .
qed

lemma disable_planes_closed:
  assumes "disable_planes k d ps w = Inr (True, w1)" "\<forall>p\<in>set ps. plane_layer p = None"
  shows "(\<exists>ws. req w1 = req w @ ws \<and> map Some ws = map disable_write ps) \<and>
         stderr w1 = stderr w @ concat (map (\<lambda>p. [Disabling_plane (plane_id p), Setting ''FB_ID'' 0]) ps)"
  using assms
proof (induction ps arbitrary: w)
  case Nil
  then show ?case by simp
next
  case (Cons plane ps)
  let ?w0 = "fprintf w (Disabling_plane (plane_id plane))"
  from Cons.prems have n: "plane_layer plane = None" by simp
  with Cons.prems(1) obtain pp where pp: "plane_get_property plane ''FB_ID'' = Some pp"
    by (auto simp: plane_apply_def split: option.splits sum.splits)
  then have name: "pp_name pp = ''FB_ID''"
    by (simp add: plane_get_property_def get_property_name)
  obtain ok1 wa where s: "plane_set_prop k plane ?w0 pp 0 = (ok1, wa)"
    by (cases "plane_set_prop k plane ?w0 pp 0")
  with Cons.prems(1) n pp have ok1: "ok1" and rec: "disable_planes k d ps wa = Inr (True, w1)"
    by (auto simp: plane_apply_def split: bool.splits)
  from plane_set_prop_True[OF s[unfolded eqTrueI[OF ok1]]] name
  have wa: "req wa = req w @ [(plane_id plane, pp_id pp, 0)]"
    "stderr wa = stderr w @ [Disabling_plane (plane_id plane), Setting ''FB_ID'' 0]"
    by (simp_all add: fprintf_def)
  from Cons.IH[OF rec] Cons.prems(2) obtain ws where
    ws: "req w1 = req wa @ ws" "map Some ws = map disable_write ps"
    and st: "stderr w1 = stderr wa @ concat (map (\<lambda>p. [Disabling_plane (plane_id p), Setting ''FB_ID'' 0]) ps)"
    by auto
  from ws wa pp have "req w1 = req w @ ((plane_id plane, pp_id pp, 0) # ws) \<and>
      map Some ((plane_id plane, pp_id pp, 0) # ws) = map disable_write (plane # ps)"
    by (simp add: disable_write_code)
  then have "\<exists>ws. req w1 = req w @ ws \<and> map Some ws = map disable_write (plane # ps)"
    by blast
  with st wa show ?case by simp
qed

lemma disable_write_unset [simp]: "disable_write (p\<lparr>plane_layer := v\<rparr>) = disable_write p"
  by (simp add: disable_write_code plane_get_property_def)

text \<open>
  Claim C6. After the first loop of a pass no plane has a layer. When the disable loop
  then returns success, it has appended to the request exactly one entry for each plane
  of the display, in list order, the spec's disable write (value 0 to \<^verbatim>\<open>FB_ID\<close>), and has
  printed the disable message once for each plane. Spelled out: the request has grown by
  as many entries as the display has planes, and the \<open>n\<close>-th new entry carries the id of
  the \<open>n\<close>-th plane, the id of a property that lies in that plane's property table under
  the name \<^verbatim>\<open>FB_ID\<close>, and the value 0. Whatever the pass returns afterwards, it only
  appends to that request and prints no further disable message.
\<close>

theorem disable_before_match:
  assumes "disable_planes k (unset_mappings d) (planes (unset_mappings d)) w = Inr (True, w1)"
  shows "(\<forall>p\<in>set (planes (unset_mappings d)). plane_layer p = None) \<and>
         (\<exists>ws. req w1 = req w @ ws \<and> map Some ws = map disable_write (planes d)) \<and>
         length (req w1) = length (req w) + length (planes d) \<and>
         (\<forall>n<length (planes d).
            \<exists>pp\<in>set (plane_props (planes d ! n)). pp_name pp = ''FB_ID'' \<and>
              req w1 ! (length (req w) + n) = (plane_id (planes d ! n), pp_id pp, 0)) \<and>
         stderr w1 =
           stderr w @ concat (map (\<lambda>p. [Disabling_plane (plane_id p), Setting ''FB_ID'' 0]) (planes d)) \<and>
         (\<forall>ok d' w'. hwc_display_apply k d w = Inr (ok, d', w') \<longrightarrow>
            (\<exists>ws out. req w' = req w1 @ ws \<and> stderr w' = stderr w1 @ out \<and>
                      (\<forall>m\<in>set out. \<not> disabling m)))"
proof -
  have n: "\<forall>p\<in>set (planes (unset_mappings d)). plane_layer p = None"
    using planes_unset_mappings_None by blast
  from disable_planes_closed[OF assms n] obtain ws where
    ws: "req w1 = req w @ ws" "map Some ws = map disable_write (planes d)"
    and st: "stderr w1 =
           stderr w @ concat (map (\<lambda>p. [Disabling_plane (plane_id p), Setting ''FB_ID'' 0]) (planes d))"
    by (auto simp: planes_unset_mappings comp_def)
  from ws(2) have "length (map Some ws) = length (map disable_write (planes d))" by simp
  then have len: "length ws = length (planes d)" by simp
  have ent: "\<exists>pp\<in>set (plane_props (planes d ! n)). pp_name pp = ''FB_ID'' \<and>
              req w1 ! (length (req w) + n) = (plane_id (planes d ! n), pp_id pp, 0)"
    if "n < length (planes d)" for n
  proof -
    from ws(2) have "map Some ws ! n = map disable_write (planes d) ! n" by simp
    with that len have "Some (ws ! n) =
        map_option (\<lambda>pp. (plane_id (planes d ! n), pp_id pp, 0)) (resolve (planes d ! n) ''FB_ID'')"
      by (simp add: disable_write_def)
    then obtain pp where "resolve (planes d ! n) ''FB_ID'' = Some pp"
      "ws ! n = (plane_id (planes d ! n), pp_id pp, 0)"
      by (cases "resolve (planes d ! n) ''FB_ID''") auto
    with resolve_in_table[of "planes d ! n" "''FB_ID''" pp] ws(1) show ?thesis
      by (auto simp: nth_append)
  qed
  have rest: "\<exists>ws out. req w' = req w1 @ ws \<and> stderr w' = stderr w1 @ out \<and>
                      (\<forall>m\<in>set out. \<not> disabling m)"
    if "hwc_display_apply k d w = Inr (ok, d', w')" for ok d' w'
  proof -
    from that assms have
      "choose_outputs k (unset_mappings d) [0..<length (outputs (unset_mappings d))] w1
         = Inr (ok, d', w')"
      by (simp add: hwc_display_apply_def Let_def)
    from choose_outputs_extends[OF this] show ?thesis by (auto simp: extends_def)
  qed
  have c2: "\<exists>ws. req w1 = req w @ ws \<and> map Some ws = map disable_write (planes d)"
    using ws by blast
  have c3: "length (req w1) = length (req w) + length (planes d)"
    using ws(1) len by simp
  have c4: "\<forall>n<length (planes d).
            \<exists>pp\<in>set (plane_props (planes d ! n)). pp_name pp = ''FB_ID'' \<and>
              req w1 ! (length (req w) + n) = (plane_id (planes d ! n), pp_id pp, 0)"
    using ent by blast
  have c6: "\<forall>ok d' w'. hwc_display_apply k d w = Inr (ok, d', w') \<longrightarrow>
            (\<exists>ws out. req w' = req w1 @ ws \<and> stderr w' = stderr w1 @ out \<and>
                      (\<forall>m\<in>set out. \<not> disabling m))"
    using rest by blast
  show ?thesis
    apply (intro conjI)
         apply (rule n)
        apply (rule c2)
       apply (rule c3)
      apply (rule c4)
     apply (rule st)
    apply (rule c6)
    done
qed

theorem disable_before_match_witness:
  "disable_planes drm0 (unset_mappings display1) (planes (unset_mappings display1)) world0 =
     Inr (True, \<lparr>req = [(10, 1, 0), (11, 1, 0)],
                 stderr = [Disabling_plane 10, Setting ''FB_ID'' 0,
                           Disabling_plane 11, Setting ''FB_ID'' 0]\<rparr>) \<and>
   map disable_write (planes display1) = [Some (10, 1, 0), Some (11, 1, 0)] \<and>
   hwc_display_apply drm0 display1 world0 = Inr (True, display1, world1) \<and>
   (\<exists>ws out. req world1 = [(10, 1, 0), (11, 1, 0)] @ ws \<and>
       stderr world1 = [Disabling_plane 10, Setting ''FB_ID'' 0,
                        Disabling_plane 11, Setting ''FB_ID'' 0] @ out \<and>
       (\<forall>m\<in>set out. \<not> disabling m))"
proof -
  let ?w1 = "\<lparr>req = [(10, 1, 0), (11, 1, 0)],
              stderr = [Disabling_plane 10, Setting ''FB_ID'' 0,
                        Disabling_plane 11, Setting ''FB_ID'' 0]\<rparr>"
  have h: "disable_planes drm0 (unset_mappings display1) (planes (unset_mappings display1)) world0 =
     Inr (True, ?w1)"
    by (simp add: model_defs example_defs)
  have m: "map disable_write (planes display1) = [Some (10, 1, 0), Some (11, 1, 0)]"
    by (simp add: disable_write_def resolve_def display1_def plane_of_def)
  from disable_before_match[OF h] apply_display1
  have "\<exists>ws out. req world1 = req ?w1 @ ws \<and> stderr world1 = stderr ?w1 @ out \<and>
       (\<forall>m\<in>set out. \<not> disabling m)"
    by blast
  with h m apply_display1 show ?thesis by simp
qed


section \<open>Running the pass twice\<close>

lemma req_rebase [simp]: "req (rebase p s w) = p @ req w"
  by (simp add: rebase_def)

lemma fprintf_rebase [simp]: "fprintf (rebase p s w) m = rebase p s (fprintf w m)"
  by (simp add: rebase_def fprintf_def)

lemma rebase_req_update [simp]: "(rebase p s w)\<lparr>req := p @ x\<rparr> = rebase p s (w\<lparr>req := x\<rparr>)"
  by (simp add: rebase_def)

lemma plane_set_prop_rebase:
  "plane_set_prop k plane (rebase p s w) pp v =
     map_prod id (rebase p s) (plane_set_prop (shift p k) plane w pp v)"
  by (simp add: plane_set_prop_def drmModeAtomicAddProperty_def Let_def shift_def
      fprintf_def rebase_def)

lemma apply_layer_props_rebase:
  "apply_layer_props k plane lps (rebase p s w) =
     map_prod id (rebase p s) (apply_layer_props (shift p k) plane lps w)"
proof (induction lps arbitrary: w)
  case Nil
  then show ?case by simp
next
  case (Cons lp lps)
  show ?case
  proof (cases "plane_get_property plane (lp_name lp)")
    case None
    then show ?thesis by simp
  next
    case (Some pp)
    obtain ok1 w1 where s: "plane_set_prop (shift p k) plane w pp (lp_value lp) = (ok1, w1)"
      by (cases "plane_set_prop (shift p k) plane w pp (lp_value lp)")
    with Some Cons.IH show ?thesis
      by (cases ok1) (simp_all add: plane_set_prop_rebase)
  qed
qed

lemma plane_apply_rebase:
  "plane_apply k d plane l (rebase p s w) =
     map_sum id (map_prod id (rebase p s)) (plane_apply (shift p k) d plane l w)"
proof (cases l)
  case None
  then show ?thesis
    by (simp add: plane_apply_def plane_set_prop_rebase split: option.splits)
next
  case (Some r)
  show ?thesis
  proof (cases "plane_get_property plane ''CRTC_ID''")
    case None
    with Some show ?thesis by (simp add: plane_apply_def)
  next
    case cp: (Some cp)
    obtain ok1 w1 where
      s: "plane_set_prop (shift p k) plane w cp (ucast (crtc_id (outputs d ! fst r))) = (ok1, w1)"
      by (cases "plane_set_prop (shift p k) plane w cp (ucast (crtc_id (outputs d ! fst r)))")
    with Some cp show ?thesis
      by (cases ok1)
         (simp_all add: plane_apply_def plane_set_prop_rebase apply_layer_props_rebase)
  qed
qed

lemma choose_loop_rebase:
  "choose_loop k d r (length p + c) i ps (rebase p s w) =
     map_sum id (map_prod id (map_prod id (rebase p s))) (choose_loop (shift p k) d r c i ps w)"
proof (induction ps arbitrary: i w)
  case Nil
  then show ?case by simp
next
  case (Cons plane ps)
  show ?case
  proof (cases "plane_layer plane = None")
    case False
    with Cons.IH show ?thesis by simp
  next
    case True
    let ?w0 = "fprintf w (Trying_to_apply r (plane_id plane))"
    show ?thesis
    proof (cases "plane_apply (shift p k) d plane (Some r) ?w0")
      case (Inl e)
      with True show ?thesis by (simp add: plane_apply_rebase)
    next
      case (Inr res)
      obtain ok1 w1 where res: "res = (ok1, w1)" by (cases res)
      note pa = Inr[unfolded res]
      have t: "drmModeAtomicCommit k (p @ req w1) = drmModeAtomicCommit (shift p k) (req w1)"
        by (simp add: drmModeAtomicCommit_def shift_def)
      have rb: "(rebase p s (fprintf w1 Failure))\<lparr>req := drmModeAtomicSetCursor (p @ req w1) (length p + c)\<rparr>
          = rebase p s ((fprintf w1 Failure)\<lparr>req := drmModeAtomicSetCursor (req w1) c\<rparr>)"
        by (simp add: drmModeAtomicSetCursor_def rebase_def)
      show ?thesis
      proof (cases ok1)
        case False
        with True pa show ?thesis by (simp add: plane_apply_rebase)
      next
        case ok1: True
        with True pa t rb Cons.IH show ?thesis
          by (simp add: plane_apply_rebase Let_def)
      qed
    qed
  qed
qed

lemma layer_choose_plane_rebase:
  "layer_choose_plane k d r (rebase p s w) =
     map_sum id (map_prod id (map_prod id (rebase p s))) (layer_choose_plane (shift p k) d r w)"
  using choose_loop_rebase[of k d r p "length (req w)" 0 "planes d" s w]
  by (simp add: layer_choose_plane_def drmModeAtomicGetCursor_def)

lemma choose_layers_rebase:
  "choose_layers k d oi lis (rebase p s w) =
     map_sum id (map_prod id (map_prod id (rebase p s))) (choose_layers (shift p k) d oi lis w)"
proof (induction lis arbitrary: d w)
  case Nil
  then show ?case by simp
next
  case (Cons li lis)
  show ?case
  proof (cases "layer_choose_plane (shift p k) d (oi, li) w")
    case (Inl e)
    then show ?thesis by (simp add: layer_choose_plane_rebase)
  next
    case (Inr res)
    obtain ok1 d1 w1 where res: "res = (ok1, d1, w1)" by (cases res)
    with Inr Cons.IH show ?thesis
      by (cases ok1) (simp_all add: layer_choose_plane_rebase)
  qed
qed

lemma choose_outputs_rebase:
  "choose_outputs k d ois (rebase p s w) =
     map_sum id (map_prod id (map_prod id (rebase p s))) (choose_outputs (shift p k) d ois w)"
proof (induction ois arbitrary: d w)
  case Nil
  then show ?case by simp
next
  case (Cons oi ois)
  show ?case
  proof (cases "choose_layers (shift p k) d oi [0..<length (layers (outputs d ! oi))] w")
    case (Inl e)
    then show ?thesis by (simp add: choose_layers_rebase)
  next
    case (Inr res)
    obtain ok1 d1 w1 where res: "res = (ok1, d1, w1)" by (cases res)
    with Inr Cons.IH show ?thesis
      by (cases ok1) (simp_all add: choose_layers_rebase)
  qed
qed

lemma disable_planes_rebase:
  "disable_planes k d ps (rebase p s w) =
     map_sum id (map_prod id (rebase p s)) (disable_planes (shift p k) d ps w)"
proof (induction ps arbitrary: w)
  case Nil
  then show ?case by simp
next
  case (Cons plane ps)
  show ?case
  proof (cases "plane_layer plane = None")
    case False
    then obtain r where "plane_layer plane = Some r" by auto
    with Cons.IH show ?thesis by simp
  next
    case True
    let ?w0 = "fprintf w (Disabling_plane (plane_id plane))"
    show ?thesis
    proof (cases "plane_apply (shift p k) d plane None ?w0")
      case (Inl e)
      with True show ?thesis by (simp add: plane_apply_rebase)
    next
      case (Inr res)
      obtain ok1 w1 where res: "res = (ok1, w1)" by (cases res)
      with Inr True Cons.IH show ?thesis
        by (cases ok1) (simp_all add: plane_apply_rebase)
    qed
  qed
qed

lemma hwc_display_apply_rebase:
  "hwc_display_apply k d (rebase p s w) =
     map_sum id (map_prod id (map_prod id (rebase p s))) (hwc_display_apply (shift p k) d w)"
proof (cases "disable_planes (shift p k) (unset_mappings d) (planes (unset_mappings d)) w")
  case (Inl e)
  then show ?thesis by (simp add: hwc_display_apply_def disable_planes_rebase)
next
  case (Inr res)
  obtain ok1 w1 where res: "res = (ok1, w1)" by (cases res)
  with Inr show ?thesis
    by (cases ok1) (simp_all add: hwc_display_apply_def disable_planes_rebase choose_outputs_rebase Let_def)
qed

lemma rebase_empty: "rebase (req w) (stderr w) \<lparr>req = [], stderr = []\<rparr> = w"
  by (simp add: rebase_def)

lemma hwc_display_apply_from_unpaired:
  assumes "pairing_consistent d"
  shows "hwc_display_apply k d w = hwc_display_apply k (unpaired d) w"
proof -
  from assms have u: "unset_mappings d = unpaired d"
    by (simp add: unset_mappings_unpaired pairing_consistent_iff)
  have "unset_mappings (unpaired d) = unpaired d"
    using pairing_consistent_unpaired[of d]
    by (simp add: unset_mappings_unpaired pairing_consistent_iff)
  with u show ?thesis by (simp add: hwc_display_apply_def)
qed

text \<open>
  Claim C9. Let a pass on a display with consistent pairing references return, and let
  a second pass be run on the display it leaves, with a driver that answers each request
  of the second pass as the first driver answered the corresponding request of the
  first pass (both requests taken from the entries the caller passed in). Then the
  second pass returns the same verdict and leaves the same display, hence the same
  pairing; it appends the same entries.
\<close>

theorem apply_twice_same_pairing:
  assumes "pairing_consistent d"
    and "hwc_display_apply k d w = Inr (ok, d1, w1)"
    and "\<forall>x it. add_property_ret k2 (req w2 @ x) it = add_property_ret k (req w @ x) it"
    and "\<forall>x. test_commit_ret k2 (req w2 @ x) = test_commit_ret k (req w @ x)"
  shows "\<exists>w3. hwc_display_apply k2 d1 w2 = Inr (ok, d1, w3) \<and>
              req w3 = req w2 @ drop (length (req w)) (req w1)"
proof -
  let ?e = "\<lparr>req = [], stderr = []\<rparr>"
  let ?K = "shift (req w) k"
  from assms(3,4) have K: "shift (req w2) k2 = ?K"
    by (simp add: shift_def fun_eq_iff)
  from hwc_display_apply_rebase[of k d "req w" "stderr w" ?e] assms(2)
  obtain w1' where i: "hwc_display_apply ?K d ?e = Inr (ok, d1, w1')"
    and w1: "w1 = rebase (req w) (stderr w) w1'"
    by (cases "hwc_display_apply ?K d ?e") (auto simp: rebase_empty)
  from hwc_display_apply_consistent[OF assms(2,1)] have c1: "pairing_consistent d1" .
  from hwc_display_apply_unpaired[OF assms(2)] have u: "unpaired d1 = unpaired d" .
  have "hwc_display_apply ?K d1 ?e = hwc_display_apply ?K (unpaired d1) ?e"
    by (rule hwc_display_apply_from_unpaired[OF c1])
  also have "\<dots> = hwc_display_apply ?K d ?e"
    by (simp only: u hwc_display_apply_from_unpaired[OF assms(1)])
  finally have "hwc_display_apply ?K d1 ?e = Inr (ok, d1, w1')" using i by simp
  with hwc_display_apply_rebase[of k2 d1 "req w2" "stderr w2" ?e] K
  have "hwc_display_apply k2 d1 w2 = Inr (ok, d1, rebase (req w2) (stderr w2) w1')"
    by (simp add: rebase_empty)
  with w1 show ?thesis by simp
qed

theorem apply_twice_same_pairing_witness:
  "pairing_consistent display0 \<and>
   hwc_display_apply drm0 display0 world0 = Inr (True, display1, world1) \<and>
   (\<exists>w3. hwc_display_apply drm0 display1 world1 = Inr (True, display1, w3) \<and>
         req w3 = req world1 @ req world1)"
proof -
  have a: "\<forall>x it. add_property_ret drm0 (req world1 @ x) it = add_property_ret drm0 (req world0 @ x) it"
    by (simp add: drm0_def)
  have t: "\<forall>x. test_commit_ret drm0 (req world1 @ x) = test_commit_ret drm0 (req world0 @ x)"
    by (simp add: drm0_def world1_def world0_def)
  from apply_twice_same_pairing[OF display0_consistent apply_display0 a t]
    display0_consistent apply_display0
  show ?thesis by (simp add: world0_def)
qed

section \<open>Priority of the layer listed first\<close>

lemma plane_set_prop_ok:
  assumes "0 \<le> add_property_ret k (req w) (plane_id plane, pp_id pp, v)"
  shows "\<exists>w1. plane_set_prop k plane w pp v = (True, w1) \<and>
              req w1 = req w @ [(plane_id plane, pp_id pp, v)]"
  using assms
  by (simp add: plane_set_prop_def drmModeAtomicAddProperty_def fprintf_def Let_def)

lemma apply_layer_props_ok:
  assumes "\<forall>rq it. 0 \<le> add_property_ret k rq it"
    and "map Some ws = map (\<lambda>lp. map_option (\<lambda>pp. (plane_id plane, pp_id pp, lp_value lp))
                   (plane_get_property plane (lp_name lp))) lps"
  shows "\<exists>w1. apply_layer_props k plane lps w = (True, w1) \<and> req w1 = req w @ ws"
  using assms(2)
proof (induction lps arbitrary: w ws)
  case Nil
  then show ?case by simp
next
  case (Cons lp lps)
  from Cons.prems obtain x xs where ws: "ws = x # xs"
    and x: "Some x = map_option (\<lambda>pp. (plane_id plane, pp_id pp, lp_value lp))
                   (plane_get_property plane (lp_name lp))"
    and xs: "map Some xs = map (\<lambda>lp. map_option (\<lambda>pp. (plane_id plane, pp_id pp, lp_value lp))
                   (plane_get_property plane (lp_name lp))) lps"
    by (cases ws) auto
  from x obtain pp where pp: "plane_get_property plane (lp_name lp) = Some pp"
    and xv: "x = (plane_id plane, pp_id pp, lp_value lp)"
    by (cases "plane_get_property plane (lp_name lp)") auto
  from plane_set_prop_ok[of k w plane pp "lp_value lp"] assms(1) obtain w1 where
    s: "plane_set_prop k plane w pp (lp_value lp) = (True, w1)"
    and r1: "req w1 = req w @ [x]"
    by (auto simp: xv)
  from Cons.IH[OF xs, of w1] obtain w2 where
    "apply_layer_props k plane lps w1 = (True, w2)" "req w2 = req w1 @ xs" by blast
  with pp s r1 ws show ?case by simp
qed

lemma plane_apply_enable_ok:
  assumes "\<forall>rq it. 0 \<le> add_property_ret k rq it"
    and "map Some ws = enable_writes plane (crtc_id (outputs d ! fst r)) (layer_props (get_layer d r))"
  shows "\<exists>w1. plane_apply k d plane (Some r) w = Inr (True, w1) \<and> req w1 = req w @ ws"
proof -
  let ?v = "ucast (crtc_id (outputs d ! fst r)) :: 64 word"
  from assms(2) obtain x xs where ws: "ws = x # xs"
    and x: "Some x = map_option (\<lambda>cp. (plane_id plane, pp_id cp, ?v)) (plane_get_property plane ''CRTC_ID'')"
    and xs: "map Some xs = map (\<lambda>lp. map_option (\<lambda>pp. (plane_id plane, pp_id pp, lp_value lp))
                   (plane_get_property plane (lp_name lp))) (layer_props (get_layer d r))"
    by (cases ws) (auto simp: enable_writes_code)
  from x obtain cp where cp: "plane_get_property plane ''CRTC_ID'' = Some cp"
    and xv: "x = (plane_id plane, pp_id cp, ?v)"
    by (cases "plane_get_property plane ''CRTC_ID''") auto
  from plane_set_prop_ok[of k w plane cp ?v] assms(1) obtain w1 where
    s: "plane_set_prop k plane w cp ?v = (True, w1)" and r1: "req w1 = req w @ [x]"
    by (auto simp: xv)
  from apply_layer_props_ok[OF assms(1) xs, of w1] obtain w2 where
    "apply_layer_props k plane (layer_props (get_layer d r)) w1 = (True, w2)"
    "req w2 = req w1 @ xs" by blast
  with cp s r1 ws show ?thesis by (simp add: plane_apply_def)
qed

lemma disable_planes_ok:
  assumes "\<forall>rq it. 0 \<le> add_property_ret k rq it"
    and "map Some B = map disable_write ps" "\<forall>p\<in>set ps. plane_layer p = None"
  shows "\<exists>w1. disable_planes k d ps w = Inr (True, w1) \<and> req w1 = req w @ B"
  using assms(2,3)
proof (induction ps arbitrary: w B)
  case Nil
  then show ?case by simp
next
  case (Cons plane ps)
  let ?w0 = "fprintf w (Disabling_plane (plane_id plane))"
  from Cons.prems(1) obtain x xs where B: "B = x # xs" and x: "Some x = disable_write plane"
    and xs: "map Some xs = map disable_write ps"
    by (cases B) auto
  from x obtain pp where pp: "plane_get_property plane ''FB_ID'' = Some pp"
    and xv: "x = (plane_id plane, pp_id pp, 0)"
    by (cases "plane_get_property plane ''FB_ID''") (auto simp: disable_write_code)
  from plane_set_prop_ok[of k ?w0 plane pp 0] assms(1) obtain w1 where
    s: "plane_set_prop k plane ?w0 pp 0 = (True, w1)" and r1: "req w1 = req w @ [x]"
    by (auto simp: xv fprintf_def)
  from Cons.IH[OF xs, of w1] Cons.prems(2) obtain w2 where
    "disable_planes k d ps w1 = Inr (True, w2)" "req w2 = req w1 @ xs" by auto
  with pp s r1 B Cons.prems(2) show ?case by (simp add: plane_apply_def)
qed

lemma enable_writes_plane_layer [simp]:
  "enable_writes (p\<lparr>plane_layer := v\<rparr>) = enable_writes p"
  by (simp add: enable_writes_code plane_get_property_def fun_eq_iff)

lemma enable_writes_unpaired:
  assumes "i < length (planes d)" "valid_layer d r"
  shows "enable_writes (planes (unpaired d) ! i) (crtc_id (outputs (unpaired d) ! fst r))
           (layer_props (get_layer (unpaired d) r)) =
         enable_writes (planes d ! i) (crtc_id (outputs d ! fst r)) (layer_props (get_layer d r))"
  using assms
  by (simp add: planes_unpaired outputs_unpaired get_layer_def valid_layer_def)

lemma enable_writes_static:
  assumes u: "unpaired D = unpaired d" and i: "i < length (planes d)" and r: "valid_layer d r"
  shows "enable_writes (planes D ! i) (crtc_id (outputs D ! fst r)) (layer_props (get_layer D r)) =
         enable_writes (planes d ! i) (crtc_id (outputs d ! fst r)) (layer_props (get_layer d r))"
proof -
  from unpaired_eq_lengths(1)[OF u] i have i': "i < length (planes D)" by simp
  from unpaired_eq_valid[OF u] r have r': "valid_layer D r" by simp
  from enable_writes_unpaired[OF i' r', unfolded u] enable_writes_unpaired[OF i r]
  show ?thesis by simp
qed

lemma trial_static:
  assumes noadd: "\<forall>rq it. 0 \<le> add_property_ret k rq it"
    and u: "unpaired D = unpaired d" and i: "i < length (planes d)" and r: "valid_layer d r"
    and e: "map Some ws = enable_writes (planes d ! i) (crtc_id (outputs d ! fst r))
                            (layer_props (get_layer d r))"
  shows "\<exists>w1. plane_apply k D (planes D ! i) (Some r) w0 = Inr (True, w1) \<and>
              req w1 = req w0 @ ws"
  using plane_apply_enable_ok[OF noadd, of ws "planes D ! i" D r w0]
    enable_writes_static[OF u i r] e by simp

lemma layer_all_rejected:
  assumes noadd: "\<forall>rq it. 0 \<le> add_property_ret k rq it"
    and u: "unpaired D = unpaired d" and r: "valid_layer d r"
    and E: "\<forall>i<length (planes d).
              map Some (E i) = enable_writes (planes d ! i) (crtc_id (outputs d ! fst r))
                                 (layer_props (get_layer d r))"
    and rej: "\<forall>i<length (planes d). plane_layer (planes D ! i) = None \<longrightarrow>
                test_commit_ret k (req W @ E i) \<in> {- EINVAL, - ERANGE}"
  shows "\<exists>W'. layer_choose_plane k D r W = Inr (True, D, W') \<and> req W' = req W"
proof -
  have len: "length (planes D) = length (planes d)" by (rule unpaired_eq_lengths(1)[OF u])
  have "\<forall>p\<in>set (planes D). plane_layer p = None \<longrightarrow>
           (\<forall>w0. req w0 = req W \<longrightarrow>
              (\<exists>w1. plane_apply k D p (Some r) w0 = Inr (True, w1) \<and>
                    drmModeAtomicCommit k (req w1) \<in> {- EINVAL, - ERANGE}))"
  proof (intro ballI impI allI)
    fix p and w0 :: world
    assume "p \<in> set (planes D)" and n: "plane_layer p = None" and w0: "req w0 = req W"
    then obtain i where il: "i < length (planes d)" and p: "p = planes D ! i"
      using len by (auto simp: in_set_conv_nth)
    from E il have e: "map Some (E i) = enable_writes (planes d ! i) (crtc_id (outputs d ! fst r))
        (layer_props (get_layer d r))"
      by simp
    from trial_static[OF noadd u il r e, of w0] obtain w1 where
      "plane_apply k D (planes D ! i) (Some r) w0 = Inr (True, w1)" "req w1 = req w0 @ E i"
      by auto
    with rej il n p w0
    show "\<exists>w1. plane_apply k D p (Some r) w0 = Inr (True, w1) \<and>
                    drmModeAtomicCommit k (req w1) \<in> {- EINVAL, - ERANGE}"
      by (auto simp: drmModeAtomicCommit_def)
  qed
  from choose_loop_all_rejected[OF refl this, of 0]
  show ?thesis by (auto simp: layer_choose_plane_def drmModeAtomicGetCursor_def)
qed

lemma layer_first_accepted:
  assumes noadd: "\<forall>rq it. 0 \<le> add_property_ret k rq it"
    and u: "unpaired D = unpaired d" and r: "valid_layer d r"
    and E: "\<forall>i<length (planes d).
              map Some (E i) = enable_writes (planes d ! i) (crtc_id (outputs d ! fst r))
                                 (layer_props (get_layer d r))"
    and j: "j < length (planes d)" and pj: "plane_layer (planes D ! j) = None"
    and rej: "\<forall>i<j. plane_layer (planes D ! i) = None \<longrightarrow>
                test_commit_ret k (req W @ E i) \<in> {- EINVAL, - ERANGE}"
    and acc: "test_commit_ret k (req W @ E j) = 0"
  shows "\<exists>W'. layer_choose_plane k D r W =
                 Inr (True, set_plane_layer (set_layer_plane D r (Some j)) j (Some r), W') \<and>
              req W' = req W @ E j"
proof -
  have len: "length (planes D) = length (planes d)" by (rule unpaired_eq_lengths(1)[OF u])
  with j have jD: "j < length (planes D)" by simp
  have split: "planes D = take j (planes D) @ (planes D ! j) # drop (Suc j) (planes D)"
    using jD by (simp add: id_take_nth_drop[symmetric])
  have r1: "\<forall>q\<in>set (take j (planes D)). plane_layer q = None \<longrightarrow>
           (\<forall>w0. req w0 = req W \<longrightarrow>
              (\<exists>w1. plane_apply k D q (Some r) w0 = Inr (True, w1) \<and>
                    drmModeAtomicCommit k (req w1) \<in> {- EINVAL, - ERANGE}))"
  proof (intro ballI impI allI)
    fix q and w0 :: world
    assume "q \<in> set (take j (planes D))" and n: "plane_layer q = None" and w0: "req w0 = req W"
    then obtain i where i: "i < j" and q: "q = planes D ! i"
      using jD by (auto simp: in_set_conv_nth)
    from i j have il: "i < length (planes d)" by simp
    from E il have e: "map Some (E i) = enable_writes (planes d ! i) (crtc_id (outputs d ! fst r))
        (layer_props (get_layer d r))"
      by simp
    from trial_static[OF noadd u il r e, of w0] obtain w1 where
      "plane_apply k D (planes D ! i) (Some r) w0 = Inr (True, w1)" "req w1 = req w0 @ E i"
      by auto
    with rej i n q w0
    show "\<exists>w1. plane_apply k D q (Some r) w0 = Inr (True, w1) \<and>
                    drmModeAtomicCommit k (req w1) \<in> {- EINVAL, - ERANGE}"
      by (auto simp: drmModeAtomicCommit_def)
  qed
  from E j have ej: "map Some (E j) = enable_writes (planes d ! j) (crtc_id (outputs d ! fst r))
        (layer_props (get_layer d r))"
    by simp
  have a1: "\<forall>w0. req w0 = req W \<longrightarrow>
           (\<exists>w1. plane_apply k D (planes D ! j) (Some r) w0 = Inr (True, w1) \<and>
                 drmModeAtomicCommit k (req w1) = 0)"
  proof (intro allI impI)
    fix w0 :: world assume w0: "req w0 = req W"
    from trial_static[OF noadd u j r ej, of w0] obtain w1 where
      "plane_apply k D (planes D ! j) (Some r) w0 = Inr (True, w1)" "req w1 = req w0 @ E j"
      by auto
    with acc w0
    show "\<exists>w1. plane_apply k D (planes D ! j) (Some r) w0 = Inr (True, w1) \<and>
                 drmModeAtomicCommit k (req w1) = 0"
      by (auto simp: drmModeAtomicCommit_def)
  qed
  from choose_loop_first_accepted[OF refl r1 pj a1, of 0 "drop (Suc j) (planes D)"]
  obtain w0 w1 where w0: "req w0 = req W"
    and pa: "plane_apply k D (planes D ! j) (Some r) w0 = Inr (True, w1)"
    and l1: "choose_loop k D r (length (req W)) 0
               (take j (planes D) @ (planes D ! j) # drop (Suc j) (planes D)) W =
             Inr (True, set_plane_layer (set_layer_plane D r (Some j)) j (Some r),
                  fprintf w1 Success)"
    using jD by auto
  from trial_static[OF noadd u j r ej, of w0] pa w0 have "req w1 = req W @ E j" by auto
  then have "req (fprintf w1 Success) = req W @ E j" by (simp add: fprintf_def)
  with l1 split show ?thesis
    by (simp add: layer_choose_plane_def drmModeAtomicGetCursor_def)
qed

lemma choose_layers_append:
  "choose_layers k d oi (xs @ ys) w =
     (case choose_layers k d oi xs w of
        Inl e \<Rightarrow> Inl e
      | Inr (False, d1, w1) \<Rightarrow> Inr (False, d1, w1)
      | Inr (True, d1, w1) \<Rightarrow> choose_layers k d1 oi ys w1)"
  by (induction xs arbitrary: d w) (auto split: sum.splits prod.splits bool.splits)

lemma choose_outputs_append:
  "choose_outputs k d (xs @ ys) w =
     (case choose_outputs k d xs w of
        Inl e \<Rightarrow> Inl e
      | Inr (False, d1, w1) \<Rightarrow> Inr (False, d1, w1)
      | Inr (True, d1, w1) \<Rightarrow> choose_outputs k d1 ys w1)"
  by (induction xs arbitrary: d w) (auto split: sum.splits prod.splits bool.splits)

lemma choose_layers_all_rejected:
  assumes noadd: "\<forall>rq it. 0 \<le> add_property_ret k rq it"
    and u: "unpaired D = unpaired d" and oi: "oi < length (outputs d)"
    and lis: "\<forall>li\<in>set lis. li < length (layers (outputs d ! oi))"
    and E: "\<forall>li\<in>set lis. \<forall>i<length (planes d).
              map Some (E (oi, li) i) =
                enable_writes (planes d ! i) (crtc_id (outputs d ! oi))
                  (layer_props (layers (outputs d ! oi) ! li))"
    and rej: "\<forall>li\<in>set lis. \<forall>i<length (planes d). plane_layer (planes D ! i) = None \<longrightarrow>
                test_commit_ret k (R @ E (oi, li) i) \<in> {- EINVAL, - ERANGE}"
    and W: "req W = R"
  shows "\<exists>W'. choose_layers k D oi lis W = Inr (True, D, W') \<and> req W' = R"
  using lis E rej W
proof (induction lis arbitrary: W)
  case Nil
  then show ?case by simp
next
  case (Cons li lis)
  from Cons.prems(1) oi have v: "valid_layer d (oi, li)" by (simp add: valid_layer_def)
  from Cons.prems(2) have e: "\<forall>i<length (planes d).
      map Some (E (oi, li) i) =
        enable_writes (planes d ! i) (crtc_id (outputs d ! fst (oi, li)))
          (layer_props (get_layer d (oi, li)))"
    by (simp add: get_layer_def)
  from Cons.prems(3,4) have rj: "\<forall>i<length (planes d). plane_layer (planes D ! i) = None \<longrightarrow>
      test_commit_ret k (req W @ E (oi, li) i) \<in> {- EINVAL, - ERANGE}"
    by simp
  from layer_all_rejected[OF noadd u v e rj] obtain W1 where
    s: "layer_choose_plane k D (oi, li) W = Inr (True, D, W1)" and r1: "req W1 = R"
    using Cons.prems(4) by auto
  from Cons.IH[of W1] Cons.prems(1,2,3) r1 obtain W' where
    "choose_layers k D oi lis W1 = Inr (True, D, W')" "req W' = R"
    by auto
  with s show ?case by simp
qed

lemma choose_outputs_all_rejected:
  assumes noadd: "\<forall>rq it. 0 \<le> add_property_ret k rq it"
    and u: "unpaired D = unpaired d"
    and ois: "\<forall>oi\<in>set ois. oi < length (outputs d)"
    and E: "\<forall>oi\<in>set ois. \<forall>li<length (layers (outputs d ! oi)). \<forall>i<length (planes d).
              map Some (E (oi, li) i) =
                enable_writes (planes d ! i) (crtc_id (outputs d ! oi))
                  (layer_props (layers (outputs d ! oi) ! li))"
    and rej: "\<forall>oi\<in>set ois. \<forall>li<length (layers (outputs d ! oi)). \<forall>i<length (planes d).
                plane_layer (planes D ! i) = None \<longrightarrow>
                test_commit_ret k (R @ E (oi, li) i) \<in> {- EINVAL, - ERANGE}"
    and W: "req W = R"
  shows "\<exists>W'. choose_outputs k D ois W = Inr (True, D, W') \<and> req W' = R"
  using ois E rej W
proof (induction ois arbitrary: W)
  case Nil
  then show ?case by simp
next
  case (Cons oi ois)
  from Cons.prems(1) have oi: "oi < length (outputs d)" by simp
  have len: "length (layers (outputs D ! oi)) = length (layers (outputs d ! oi))"
    by (rule unpaired_eq_lengths(3)[OF u oi])
  have "\<exists>W1. choose_layers k D oi [0..<length (layers (outputs d ! oi))] W = Inr (True, D, W1) \<and>
          req W1 = R"
  proof (rule choose_layers_all_rejected[OF noadd u oi _ _ _ Cons.prems(4)])
    show "\<forall>li\<in>set [0..<length (layers (outputs d ! oi))]. li < length (layers (outputs d ! oi))"
      by simp
    show "\<forall>li\<in>set [0..<length (layers (outputs d ! oi))]. \<forall>i<length (planes d).
              map Some (E (oi, li) i) =
                enable_writes (planes d ! i) (crtc_id (outputs d ! oi))
                  (layer_props (layers (outputs d ! oi) ! li))"
      using Cons.prems(2) by simp
    show "\<forall>li\<in>set [0..<length (layers (outputs d ! oi))]. \<forall>i<length (planes d).
            plane_layer (planes D ! i) = None \<longrightarrow>
            test_commit_ret k (R @ E (oi, li) i) \<in> {- EINVAL, - ERANGE}"
      using Cons.prems(3) by simp
  qed
  then obtain W1 where
    s: "choose_layers k D oi [0..<length (layers (outputs D ! oi))] W = Inr (True, D, W1)"
    and r1: "req W1 = R"
    using len by auto
  from Cons.IH[of W1] Cons.prems(1,2,3) r1 obtain W' where
    "choose_outputs k D ois W1 = Inr (True, D, W')" "req W' = R"
    by auto
  with s show ?case by simp
qed

lemma upt_split: "l < n \<Longrightarrow> [0..<n] = [0..<l] @ [l] @ [Suc l..<n]"
  using upt_add_eq_append[of 0 l "n - l"] upt_conv_Cons[of l n] by simp




lemma display3_consistent: "pairing_consistent display3"
  by (simp add: pairing_consistent_def display3_def plane_of_def layer_of_def get_layer_def
      All_less_Suc)


section \<open>Creating and destroying a display\<close>

lemmas memory_defs =
  hwc_display_create_def hwc_display_destroy_def plane_create_def plane_destroy_def
  calloc_display_def calloc_plane_def calloc_props_def calloc_def dup_def close_def
  free_display_def free_plane_def free_props_def read_display_def read_plane_def
  write_display_def write_plane_def read_list_def write_list_def and_then_def
  hwc_list_init_def hwc_list_insert_def hwc_list_remove_def store_prop_def
  zero_list_def zero_display_def zero_plane_def

lemmas memory_example_defs = memory0_def os_ok_def os_no_dup_def os_no_plane_def

text \<open>
  Claim C2 does not hold of the code. When the display is allocated and \<^verbatim>\<open>dup\<close> fails,
  \<open>hwc_display_create\<close> calls \<open>hwc_display_destroy\<close> before \<^verbatim>\<open>hwc_list_init\<close> has run: the
  \<^verbatim>\<open>planes\<close> head is still as \<^verbatim>\<open>calloc\<close> left it, the loop over the planes takes \<^verbatim>\<open>NULL\<close> from
  \<^verbatim>\<open>planes.next\<close> and reads through it. The unwind path ends in a null dereference
  instead of completing.
\<close>

theorem hwc_display_create_dup_failure:
  assumes "\<not> calloc_fails sys (allocations m)" and "dup_ret sys fd < 0"
  shows "hwc_display_create sys m fd = Inl Null_dereference"
  using assms
  by (simp add: hwc_display_create_def hwc_display_destroy_def calloc_display_def calloc_def
      dup_def close_def read_display_def write_display_def read_list_def and_then_def
      zero_display_def zero_list_def Let_def)

theorem hwc_display_create_dup_failure_witness:
  "\<not> calloc_fails os_no_dup (allocations memory0) \<and> dup_ret os_no_dup 3 < 0 \<and>
   hwc_display_create os_no_dup memory0 3 = Inl Null_dereference"
proof -
  have a: "\<not> calloc_fails os_no_dup (allocations memory0)" and b: "dup_ret os_no_dup 3 < 0"
    by (simp_all add: memory_example_defs)
  from hwc_display_create_dup_failure[OF a b] a b show ?thesis by simp
qed

text \<open>
  For comparison: a display that was created in full is destroyed without a fault and
  nothing is left of it; and a failure of a query inside \<open>plane_create\<close> leaves the plane
  that was being built behind, which no list holds and nobody frees.
\<close>

lemma create_then_destroy:
  "hwc_display_create os_ok memory0 3 =
     Inr (1, \<lparr>display_objs =
                 [(1, \<lparr>obj_drm_fd = 4,
                        obj_planes = \<lparr>prev = Link_of 4, next = Link_of 2\<rparr>,
                        obj_outputs = \<lparr>prev = Outputs_of 1, next = Outputs_of 1\<rparr>\<rparr>)],
               plane_objs =
                 [(4, \<lparr>obj_id = 11, obj_possible_crtcs = 1, obj_props = 5, obj_props_len = 2,
                        obj_link = \<lparr>prev = Link_of 2, next = Planes_of 1\<rparr>,
                        obj_layer = 0\<rparr>),
                  (2, \<lparr>obj_id = 10, obj_possible_crtcs = 1, obj_props = 3, obj_props_len = 2,
                        obj_link = \<lparr>prev = Planes_of 1, next = Link_of 4\<rparr>,
                        obj_layer = 0\<rparr>)],
               prop_arrays =
                 [(5, [\<lparr>pp_name = ''FB_ID'', pp_id = 1\<rparr>, \<lparr>pp_name = ''CRTC_ID'', pp_id = 2\<rparr>]),
                  (3, [\<lparr>pp_name = ''FB_ID'', pp_id = 1\<rparr>, \<lparr>pp_name = ''CRTC_ID'', pp_id = 2\<rparr>])],
               open_fds = [4, 3], allocations = 5\<rparr>)"
  "hwc_display_destroy
     \<lparr>display_objs =
        [(1, \<lparr>obj_drm_fd = 4,
               obj_planes = \<lparr>prev = Link_of 4, next = Link_of 2\<rparr>,
               obj_outputs = \<lparr>prev = Outputs_of 1, next = Outputs_of 1\<rparr>\<rparr>)],
      plane_objs =
        [(4, \<lparr>obj_id = 11, obj_possible_crtcs = 1, obj_props = 5, obj_props_len = 2,
               obj_link = \<lparr>prev = Link_of 2, next = Planes_of 1\<rparr>,
                        obj_layer = 0\<rparr>),
         (2, \<lparr>obj_id = 10, obj_possible_crtcs = 1, obj_props = 3, obj_props_len = 2,
               obj_link = \<lparr>prev = Planes_of 1, next = Link_of 4\<rparr>,
                        obj_layer = 0\<rparr>)],
      prop_arrays =
        [(5, [\<lparr>pp_name = ''FB_ID'', pp_id = 1\<rparr>, \<lparr>pp_name = ''CRTC_ID'', pp_id = 2\<rparr>]),
         (3, [\<lparr>pp_name = ''FB_ID'', pp_id = 1\<rparr>, \<lparr>pp_name = ''CRTC_ID'', pp_id = 2\<rparr>])],
      open_fds = [4, 3], allocations = 5\<rparr> 1 =
     Inr \<lparr>display_objs = [], plane_objs = [], prop_arrays = [], open_fds = [3], allocations = 5\<rparr>"
  by (simp_all add: memory_defs memory_example_defs Let_def)

lemma plane_query_failure_leaks:
  "hwc_display_create os_no_plane memory0 3 =
     Inr (0, \<lparr>display_objs = [],
               plane_objs =
                 [(4, \<lparr>obj_id = 0, obj_possible_crtcs = 0, obj_props = 0, obj_props_len = 0,
                        obj_link = \<lparr>prev = Null, next = Null\<rparr>,
                        obj_layer = 0\<rparr>)],
               prop_arrays = [], open_fds = [3], allocations = 4\<rparr>)"
  by (simp add: memory_defs memory_example_defs Let_def)


end
